theory Spec2Isabelle
  imports Complex_Main
begin

section \<open>JavaScript values\<close>

text \<open>
  The values the route module and \<open>app/utils.ts\<close> handle. A JavaScript number is a
  finite value (kept as an exact rational; of the roundings of doubles only that of
  the product \<open>Math.random() * 10\<close> is modelled, see \<open>double_times\<close>), \<open>NaN\<close>
  or an infinity. A \<open>Date\<close> object holds a time value in milliseconds since the epoch,
  or \<open>NaN\<close> (an Invalid Date). A \<open>Decimal\<close> of decimal.js holds a numeric value.
  An object is the list of its own enumerable properties, in enumeration order.
\<close>

datatype jsnum = Finite rat | NaN | PosInfinity | NegInfinity

datatype decimal = Decimal jsnum

datatype date = Date int | InvalidDate

datatype jsval =
    JUndefined
  | JNull
  | JBool bool
  | JNum jsnum
  | JStr string
  | JStringObj string
  | JArr "jsval list"
  | JObj "(string \<times> jsval) list"
  | JDate date
  | JDecimal decimal

text \<open>What a throw of the source becomes: the exception's class.\<close>

datatype error = TypeError | RangeError | DecodeError "jsval list"

text \<open>The \<open>typeof\<close> operator.\<close>

fun typeof :: "jsval \<Rightarrow> string" where
  "typeof JUndefined = ''undefined''"
| "typeof JNull = ''object''"
| "typeof (JBool _) = ''boolean''"
| "typeof (JNum _) = ''number''"
| "typeof (JStr _) = ''string''"
| "typeof (JStringObj _) = ''object''"
| "typeof (JArr _) = ''object''"
| "typeof (JObj _) = ''object''"
| "typeof (JDate _) = ''object''"
| "typeof (JDecimal _) = ''object''"

text \<open>ToBoolean: what \<open>!to\<close> negates.\<close>

fun truthy :: "jsval \<Rightarrow> bool" where
  "truthy JUndefined = False"
| "truthy JNull = False"
| "truthy (JBool b) = b"
| "truthy (JNum (Finite q)) = (q \<noteq> 0)"
| "truthy (JNum NaN) = False"
| "truthy (JNum _) = True"
| "truthy (JStr s) = (s \<noteq> [])"
| "truthy _ = True"

text \<open>\<open>String.prototype.startsWith(p)\<close>: the first \<open>p.length\<close> characters are \<open>p\<close>.\<close>

definition startsWith :: "string \<Rightarrow> string \<Rightarrow> bool" where
  "startsWith s p = (take (length p) s = p)"

section \<open>app/utils.ts: safeRedirect\<close>

definition DEFAULT_REDIRECT :: string where
  "DEFAULT_REDIRECT = ''/''"

text \<open>
  \<open>safeRedirect(to, defaultRedirect = DEFAULT_REDIRECT)\<close>. The second argument is
  \<open>None\<close> when the caller leaves it out, and the default parameter value stands in.
\<close>

definition safeRedirect :: "jsval \<Rightarrow> string option \<Rightarrow> jsval" where
  "safeRedirect to defaultRedirect_arg =
     (let defaultRedirect =
            (case defaultRedirect_arg of None \<Rightarrow> DEFAULT_REDIRECT | Some d \<Rightarrow> d)
      in if \<not> truthy to \<or> typeof to \<noteq> ''string'' then JStr defaultRedirect
         else (case to of
                 JStr s \<Rightarrow>
                   if \<not> startsWith s ''/'' \<or> startsWith s ''//'' then JStr defaultRedirect
                   else to
               | _ \<Rightarrow> JStr defaultRedirect))"

section \<open>The random source and the clock\<close>

text \<open>
  \<open>generate\<close> reads a process-wide random source (and, for a past date, the clock).
  The model passes the source explicitly: the raw values the environment will supply,
  in the order they are asked for. A source that has run out supplies \<open>0\<close>.
\<close>

type_synonym rng = "nat list"

fun draw :: "rng \<Rightarrow> nat \<times> rng" where
  "draw [] = (0, [])"
| "draw (n # ns) = (n, ns)"

text \<open>\<open>Math.random()\<close>: a number in \<open>[0, 1)\<close>, a multiple of \<open>2\<^sup>-\<^sup>5\<^sup>3\<close>.\<close>

definition Math_random :: "rng \<Rightarrow> rat \<times> rng" where
  "Math_random rng =
     (case draw rng of (n, r) \<Rightarrow> (of_nat (n mod 2 ^ 53) / 2 ^ 53, r))"

text \<open>
  The product of two doubles is the double nearest to the exact product, ties going to
  the even significand. \<open>nearest_double n\<close> is that double for the value
  \<open>n / 2\<^sup>5\<^sup>3\<close>, as its numerator over \<open>2\<^sup>5\<^sup>3\<close>: \<open>n\<close> itself when it fits the 53 bits
  of a significand, and otherwise \<open>n\<close> rounded at the bits in excess. \<open>double_times\<close>
  is the product for factors whose exact product is a multiple of \<open>2\<^sup>-\<^sup>5\<^sup>3\<close> and not
  negative, as that of \<open>Math.random()\<close> and \<open>10\<close> is.
\<close>

fun excess_bits :: "nat \<Rightarrow> nat" where
  "excess_bits n = (if n < 2 ^ 53 then 0 else Suc (excess_bits (n div 2)))"

declare excess_bits.simps [simp del]

definition round_half_even :: "nat \<Rightarrow> nat \<Rightarrow> nat" where
  "round_half_even n s =
     (let q = n div 2 ^ s; r = n mod 2 ^ s
      in if 2 * r > 2 ^ s \<or> (2 * r = 2 ^ s \<and> odd q) then q + 1 else q)"

definition nearest_double :: "nat \<Rightarrow> nat" where
  "nearest_double n = round_half_even n (excess_bits n) * 2 ^ excess_bits n"

definition double_times :: "rat \<Rightarrow> rat \<Rightarrow> rat" where
  "double_times x y = of_nat (nearest_double (nat \<lfloor>x * y * 2 ^ 53\<rfloor>)) / 2 ^ 53"

text \<open>\<open>faker.datatype.number({min, max})\<close>: an integer between the bounds, both included.\<close>

definition faker_datatype_number_between :: "nat \<Rightarrow> nat \<Rightarrow> rng \<Rightarrow> nat \<times> rng" where
  "faker_datatype_number_between lo hi rng =
     (case draw rng of (n, r) \<Rightarrow> (lo + n mod (hi - lo + 1), r))"

text \<open>\<open>faker.datatype.number()\<close>: the default bounds are \<open>0\<close> and \<open>99999\<close>.\<close>

definition faker_datatype_number :: "rng \<Rightarrow> jsval \<times> rng" where
  "faker_datatype_number rng =
     (case faker_datatype_number_between 0 99999 rng of
        (n, r) \<Rightarrow> (JNum (Finite (of_nat n)), r))"

text \<open>
  \<open>faker.datatype.float({ precision: 0.01 })\<close>: a random integer between \<open>0\<close> and
  \<open>99999 / 0.01\<close>, divided by \<open>1 / 0.01\<close>.
\<close>

definition faker_datatype_float :: "rng \<Rightarrow> jsval \<times> rng" where
  "faker_datatype_float rng =
     (case faker_datatype_number_between 0 9999900 rng of
        (n, r) \<Rightarrow> (JNum (Finite (of_nat n / 100)), r))"

text \<open>\<open>faker.datatype.boolean()\<close>.\<close>

definition faker_datatype_boolean :: "rng \<Rightarrow> jsval \<times> rng" where
  "faker_datatype_boolean rng =
     (case faker_datatype_number_between 0 1 rng of (n, r) \<Rightarrow> (JBool (n = 1), r))"

text \<open>
  \<open>faker.datatype.string()\<close>: ten characters, each of a code between \<open>33\<close> and
  \<open>125\<close>.
\<close>

fun faker_chars :: "nat \<Rightarrow> rng \<Rightarrow> string \<times> rng" where
  "faker_chars 0 rng = ([], rng)"
| "faker_chars (Suc k) rng =
     (case faker_datatype_number_between 33 125 rng of
        (n, r1) \<Rightarrow> (case faker_chars k r1 of (cs, r2) \<Rightarrow> (char_of n # cs, r2)))"

definition faker_datatype_string :: "rng \<Rightarrow> jsval \<times> rng" where
  "faker_datatype_string rng = (case faker_chars 10 rng of (cs, r) \<Rightarrow> (JStr cs, r))"

text \<open>
  \<open>faker.datatype.uuid()\<close>: in the template
  \<open>xxxxxxxx-xxxx-4xxx-yxxx-xxxxxxxxxxxx\<close> every \<open>x\<close> becomes a random hexadecimal
  digit and \<open>y\<close> one of \<open>8\<close>, \<open>9\<close>, \<open>a\<close>, \<open>b\<close>.
\<close>

definition hex_digit :: "nat \<Rightarrow> char" where
  "hex_digit n = ''0123456789abcdef'' ! (n mod 16)"

fun replacePlaceholders :: "string \<Rightarrow> rng \<Rightarrow> string \<times> rng" where
  "replacePlaceholders [] rng = ([], rng)"
| "replacePlaceholders (c # cs) rng =
     (if c = CHR ''x'' then
        (case faker_datatype_number_between 0 15 rng of
           (n, r1) \<Rightarrow>
             (case replacePlaceholders cs r1 of (out, r2) \<Rightarrow> (hex_digit n # out, r2)))
      else if c = CHR ''y'' then
        (case faker_datatype_number_between 0 15 rng of
           (n, r1) \<Rightarrow>
             (case replacePlaceholders cs r1 of
                (out, r2) \<Rightarrow> (hex_digit (n mod 4 + 8) # out, r2)))
      else (case replacePlaceholders cs rng of (out, r2) \<Rightarrow> (c # out, r2)))"

definition RFC4122_TEMPLATE :: string where
  "RFC4122_TEMPLATE = ''xxxxxxxx-xxxx-4xxx-yxxx-xxxxxxxxxxxx''"

definition faker_datatype_uuid :: "rng \<Rightarrow> jsval \<times> rng" where
  "faker_datatype_uuid rng =
     (case replacePlaceholders RFC4122_TEMPLATE rng of (s, r) \<Rightarrow> (JStr s, r))"

text \<open>
  \<open>faker.date.past()\<close>: the clock's reading (a time before the year 10000), less a
  random span between one second and one year.
\<close>

definition faker_date_past :: "rng \<Rightarrow> date \<times> rng" where
  "faker_date_past rng =
     (case draw rng of
        (now, r1) \<Rightarrow>
          (case faker_datatype_number_between 1000 31536000000 r1 of
             (ago, r2) \<Rightarrow> (Date (int (now mod 253402300800000) - int ago), r2)))"

section \<open>Dates as text\<close>

text \<open>Decimal digits of a natural number, and \<open>addLeadingZeros\<close> of date-fns.\<close>

fun decimal_digits :: "nat \<Rightarrow> string" where
  "decimal_digits n =
     (if n < 10 then [''0123456789'' ! n]
      else decimal_digits (n div 10) @ [''0123456789'' ! (n mod 10)])"

declare decimal_digits.simps [simp del]

definition addLeadingZeros :: "nat \<Rightarrow> nat \<Rightarrow> string" where
  "addLeadingZeros n targetLength =
     replicate (targetLength - length (decimal_digits n)) CHR ''0'' @ decimal_digits n"

text \<open>
  The calendar of ECMAScript dates: \<open>DaysInYear\<close> and \<open>DayFromYear\<close> (the day
  number, counted from 1970-01-01, of the first day of a year) as the language defines
  them, and the year of a day, which is the largest \<open>y\<close> with \<open>DayFromYear y \<le> day\<close>:
  one of the three years around \<open>1970 + 400 * day / 146097\<close>.
\<close>

definition DaysInYear :: "int \<Rightarrow> int" where
  "DaysInYear y =
     (if y mod 4 \<noteq> 0 then 365 else if y mod 100 \<noteq> 0 then 366
      else if y mod 400 \<noteq> 0 then 365 else 366)"

definition DayFromYear :: "int \<Rightarrow> int" where
  "DayFromYear y =
     365 * (y - 1970) + (y - 1969) div 4 - (y - 1901) div 100 + (y - 1601) div 400"

definition YearFromDay :: "int \<Rightarrow> int" where
  "YearFromDay day =
     (let y = 1970 + (400 * day) div 146097
      in if DayFromYear (y + 1) \<le> day then y + 1
         else if DayFromYear y \<le> day then y
         else y - 1)"

text \<open>
  The month (from 1) and the day of the month of the \<open>n\<close>-th day (from 0) of a year,
  found by going through the lengths of the months.
\<close>

definition month_lengths :: "int \<Rightarrow> int list" where
  "month_lengths y =
     [31, if DaysInYear y = 366 then 29 else 28, 31, 30, 31, 30, 31, 31, 30, 31, 30, 31]"

fun month_and_date :: "int list \<Rightarrow> int \<Rightarrow> int \<Rightarrow> int \<times> int" where
  "month_and_date [] n m = (m, n + 1)"
| "month_and_date (l # ls) n m =
     (if n < l then (m, n + 1) else month_and_date ls (n - l) (m + 1))"

text \<open>Year, month and day of the month of a day number counted from 1970-01-01.\<close>

definition civil_from_days :: "int \<Rightarrow> int \<times> int \<times> int" where
  "civil_from_days z =
     (let y = YearFromDay z
      in case month_and_date (month_lengths y) (z - DayFromYear y) 1 of
           (m, d) \<Rightarrow> (y, m, d))"

definition msPerDay :: int where
  "msPerDay = 86400000"

text \<open>
  \<open>Date.prototype.toISOString\<close>: the UTC fields as \<open>YYYY-MM-DDTHH:mm:ss.sssZ\<close>, the
  year with a sign and six digits outside 0..9999; a RangeError on an Invalid Date.
\<close>

definition iso_year :: "int \<Rightarrow> string" where
  "iso_year y =
     (if 0 \<le> y \<and> y \<le> 9999 then addLeadingZeros (nat y) 4
      else (if y < 0 then ''-'' else ''+'') @ addLeadingZeros (nat \<bar>y\<bar>) 6)"

definition toISOString :: "date \<Rightarrow> error + string" where
  "toISOString d =
     (case d of
        InvalidDate \<Rightarrow> Inl RangeError
      | Date t \<Rightarrow>
          (case civil_from_days (t div msPerDay) of
             (y, m, dd) \<Rightarrow>
               (let ms = t mod msPerDay in
                Inr (iso_year y @ ''-'' @ addLeadingZeros (nat m) 2 @ ''-''
                     @ addLeadingZeros (nat dd) 2 @ ''T''
                     @ addLeadingZeros (nat (ms div 3600000)) 2 @ '':''
                     @ addLeadingZeros (nat (ms div 60000 mod 60)) 2 @ '':''
                     @ addLeadingZeros (nat (ms div 1000 mod 60)) 2 @ ''.''
                     @ addLeadingZeros (nat (ms mod 1000)) 3 @ ''Z''))))"

text \<open>
  What the host and date-fns supply and the module does not fix: \<open>parseISO\<close> (a
  \<open>Date\<close> for every string, an Invalid Date where the string is no ISO-8601 date), and
  the local time zone, as the offset in milliseconds of local time from UTC at a time.
\<close>

record datefns =
  parseISO :: "string \<Rightarrow> date"
  zoneOffset :: "int \<Rightarrow> int"

text \<open>\<open>isValid(date)\<close> of date-fns.\<close>

fun isValid :: "date \<Rightarrow> bool" where
  "isValid (Date _) = True"
| "isValid InvalidDate = False"

text \<open>
  \<open>format(date, "yyyy-MM-dd")\<close> of date-fns: a RangeError on an Invalid Date;
  otherwise the local year (year \<open>1 - y\<close> of the era for \<open>y \<le> 0\<close>) on four digits
  at least, the month and the day on two.
\<close>

definition format_yyyy_MM_dd :: "datefns \<Rightarrow> date \<Rightarrow> error + string" where
  "format_yyyy_MM_dd L d =
     (case d of
        InvalidDate \<Rightarrow> Inl RangeError
      | Date t \<Rightarrow>
          (case civil_from_days ((t + zoneOffset L t) div msPerDay) of
             (signedYear, m, dd) \<Rightarrow>
               (let year = (if signedYear > 0 then signedYear else 1 - signedYear) in
                Inr (addLeadingZeros (nat year) 4 @ ''-'' @ addLeadingZeros (nat m) 2
                     @ ''-'' @ addLeadingZeros (nat dd) 2))))"

section \<open>Schema nodes\<close>

text \<open>
  A codec of io-ts, as \<open>generate\<close> reads it. Every codec has a \<open>name\<close>; the classes
  with a \<open>_tag\<close> that \<open>generate\<close> has a case for keep the attributes it reads
  (\<open>type\<close>, \<open>props\<close>, \<open>predicate\<close>). The other members of \<open>HasArbitrary\<close> are one
  constructor, \<open>OtherType\<close>, with their tag and their own \<open>validate\<close>. A codec made
  with \<open>new t.Type(name, is, validate, encode)\<close> has no \<open>_tag\<close>.
\<close>

datatype other_tag =
    UnknownType | UndefinedType | NullType | VoidType | KeyofType | LiteralType
  | DictionaryType | TupleType | UnionType | IntersectionType

type_synonym validation = "jsval list + jsval"

datatype codec =
    Type string "jsval \<Rightarrow> bool" "jsval \<Rightarrow> validation" "jsval \<Rightarrow> error + jsval"
  | StringType string
  | NumberType string
  | BooleanType string
  | ArrayType string codec
  | InterfaceType string "(string \<times> codec) list"
  | PartialType string "(string \<times> codec) list"
  | ExactType string codec
  | RefinementType string codec "jsval \<Rightarrow> bool"
  | OtherType other_tag string "jsval \<Rightarrow> validation"

fun name :: "codec \<Rightarrow> string" where
  "name (Type n _ _ _) = n"
| "name (StringType n) = n"
| "name (NumberType n) = n"
| "name (BooleanType n) = n"
| "name (ArrayType n _) = n"
| "name (InterfaceType n _) = n"
| "name (PartialType n _) = n"
| "name (ExactType n _) = n"
| "name (RefinementType n _ _) = n"
| "name (OtherType _ n _) = n"

text \<open>
  \<open>getProps\<close>: the switch has three cases and no default, so any other codec gives
  \<open>undefined\<close> (\<open>None\<close>).
\<close>

fun getProps :: "codec \<Rightarrow> (string \<times> codec) list option" where
  "getProps (InterfaceType _ props) = Some props"
| "getProps (PartialType _ props) = Some props"
| "getProps (ExactType _ t) = getProps t"
| "getProps _ = None"

lemma getProps_size:
  "getProps c = Some ps \<Longrightarrow> size_list (size_prod (\<lambda>_. 0) size) ps < size c"
  by (induction c arbitrary: ps) auto

section \<open>The generator\<close>

text \<open>
  \<open>v.filter(predicate)\<close> on a generated value: only an array has a \<open>filter\<close> method
  (it keeps the elements the predicate accepts); on any other value the call throws a
  TypeError.
\<close>

fun call_filter :: "jsval \<Rightarrow> (jsval \<Rightarrow> bool) \<Rightarrow> error + jsval" where
  "call_filter (JArr xs) predicate = Inr (JArr (filter predicate xs))"
| "call_filter _ predicate = Inl TypeError"

text \<open>
  \<open>generate\<close>, with the random source passed through. \<open>generate_elems\<close> is the
  \<open>map\<close> over \<open>Array(range).keys()\<close> and \<open>generate_props\<close> is \<open>record.map\<close> over
  the props, both in order; a throw ends them. Where \<open>getProps\<close> gives \<open>undefined\<close>
  (an exact node over a codec without props), the model follows the \<open>for ... in\<close> that
  \<open>record.map\<close> of fp-ts runs over its argument: no key is visited and the result is the
  empty object. No property below rests on that case.
\<close>

function (sequential)
  generate :: "codec \<Rightarrow> rng \<Rightarrow> (error + jsval) \<times> rng" and
  generate_elems :: "codec \<Rightarrow> nat \<Rightarrow> rng \<Rightarrow> (error + jsval list) \<times> rng" and
  generate_props ::
    "(string \<times> codec) list \<Rightarrow> rng \<Rightarrow> (error + (string \<times> jsval) list) \<times> rng"
where
  "generate c rng =
     (if name c = ''DateFromStringISO'' then
        (case faker_date_past rng of
           (d, r1) \<Rightarrow>
             (case toISOString d of Inl e \<Rightarrow> (Inl e, r1) | Inr s \<Rightarrow> (Inr (JStr s), r1)))
      else if name c = ''Uuid'' then
        (case faker_datatype_uuid rng of (v, r1) \<Rightarrow> (Inr v, r1))
      else if name c = ''CurrencyFromString'' then
        (case faker_datatype_float rng of (v, r1) \<Rightarrow> (Inr v, r1))
      else
        (case c of
           StringType _ \<Rightarrow> (case faker_datatype_string rng of (v, r1) \<Rightarrow> (Inr v, r1))
         | NumberType _ \<Rightarrow> (case faker_datatype_number rng of (v, r1) \<Rightarrow> (Inr v, r1))
         | BooleanType _ \<Rightarrow> (case faker_datatype_boolean rng of (v, r1) \<Rightarrow> (Inr v, r1))
         | ArrayType _ t \<Rightarrow>
             (case Math_random rng of
                (x, r1) \<Rightarrow>
                  (case generate_elems t (nat \<lfloor>double_times x 10\<rfloor>) r1 of
                     (Inl e, r2) \<Rightarrow> (Inl e, r2)
                   | (Inr vs, r2) \<Rightarrow> (Inr (JArr vs), r2)))
         | InterfaceType _ _ \<Rightarrow>
             (case getProps c of
                None \<Rightarrow> (Inr (JObj []), rng)
              | Some props \<Rightarrow>
                  (case generate_props props rng of
                     (Inl e, r2) \<Rightarrow> (Inl e, r2)
                   | (Inr kvs, r2) \<Rightarrow> (Inr (JObj kvs), r2)))
         | PartialType _ _ \<Rightarrow>
             (case getProps c of
                None \<Rightarrow> (Inr (JObj []), rng)
              | Some props \<Rightarrow>
                  (case generate_props props rng of
                     (Inl e, r2) \<Rightarrow> (Inl e, r2)
                   | (Inr kvs, r2) \<Rightarrow> (Inr (JObj kvs), r2)))
         | ExactType _ _ \<Rightarrow>
             (case getProps c of
                None \<Rightarrow> (Inr (JObj []), rng)
              | Some props \<Rightarrow>
                  (case generate_props props rng of
                     (Inl e, r2) \<Rightarrow> (Inl e, r2)
                   | (Inr kvs, r2) \<Rightarrow> (Inr (JObj kvs), r2)))
         | RefinementType _ t predicate \<Rightarrow>
             (case generate t rng of
                (Inl e, r1) \<Rightarrow> (Inl e, r1)
              | (Inr v, r1) \<Rightarrow> (call_filter v predicate, r1))
         | Type _ _ _ _ \<Rightarrow> (Inr JUndefined, rng)
         | OtherType _ _ _ \<Rightarrow> (Inr JUndefined, rng)))"
| "generate_elems t 0 rng = (Inr [], rng)"
| "generate_elems t (Suc k) rng =
     (case generate t rng of
        (Inl e, r1) \<Rightarrow> (Inl e, r1)
      | (Inr v, r1) \<Rightarrow>
          (case generate_elems t k r1 of
             (Inl e, r2) \<Rightarrow> (Inl e, r2)
           | (Inr vs, r2) \<Rightarrow> (Inr (v # vs), r2)))"
| "generate_props [] rng = (Inr [], rng)"
| "generate_props ((k, t) # props) rng =
     (case generate t rng of
        (Inl e, r1) \<Rightarrow> (Inl e, r1)
      | (Inr v, r1) \<Rightarrow>
          (case generate_props props r1 of
             (Inl e, r2) \<Rightarrow> (Inl e, r2)
           | (Inr kvs, r2) \<Rightarrow> (Inr ((k, v) # kvs), r2)))"
  by pat_completeness auto
termination
  by (relation "measures
        [\<lambda>x. case x of
            Inl (c, _) \<Rightarrow> size c
          | Inr (Inl (t, _, _)) \<Rightarrow> size t
          | Inr (Inr (props, _)) \<Rightarrow> size_list (size_prod (\<lambda>_. 0) size) props,
         \<lambda>x. case x of
            Inl _ \<Rightarrow> 0
          | Inr (Inl (_, k, _)) \<Rightarrow> Suc k
          | Inr (Inr _) \<Rightarrow> 0]")
     (auto dest: getProps_size)

declare generate.simps [simp del]

section \<open>Decoding\<close>

text \<open>
  \<open>validate\<close> of io-ts for the codecs above: \<open>t.success\<close> and \<open>t.failure\<close> (the
  errors kept as the list of offending values), \<open>UnknownRecord\<close>, and the classes'
  \<open>validate\<close> methods. A codec without a modelled class carries its own \<open>validate\<close>.
\<close>

definition success :: "jsval \<Rightarrow> validation" where
  "success a = Inr a"

definition failure :: "jsval \<Rightarrow> validation" where
  "failure u = Inl [u]"

fun UnknownRecord_is :: "jsval \<Rightarrow> bool" where
  "UnknownRecord_is (JObj _) = True"
| "UnknownRecord_is _ = False"

text \<open>Reading \<open>a[k]\<close> (\<open>undefined\<close> for a missing key) and writing \<open>a[k] = v\<close>.\<close>

definition get_prop :: "(string \<times> jsval) list \<Rightarrow> string \<Rightarrow> jsval" where
  "get_prop a k = (case map_of a k of None \<Rightarrow> JUndefined | Some v \<Rightarrow> v)"

fun set_prop :: "(string \<times> jsval) list \<Rightarrow> string \<Rightarrow> jsval \<Rightarrow> (string \<times> jsval) list" where
  "set_prop [] k v = [(k, v)]"
| "set_prop ((k', v') # a) k v = (if k' = k then (k, v) # a else (k', v') # set_prop a k v)"

text \<open>
  The exact codec of io-ts drops the properties outside the props with \<open>stripKeys\<close>.
  It finds the props with a \<open>getProps\<close> of its own, which looks through a refinement
  (and, among the codecs modelled here, knows the interface and the partial kinds).
\<close>

fun io_ts_getProps :: "codec \<Rightarrow> (string \<times> codec) list option" where
  "io_ts_getProps (InterfaceType _ props) = Some props"
| "io_ts_getProps (PartialType _ props) = Some props"
| "io_ts_getProps (RefinementType _ t _) = io_ts_getProps t"
| "io_ts_getProps _ = None"

fun stripKeys :: "jsval \<Rightarrow> (string \<times> codec) list option \<Rightarrow> jsval" where
  "stripKeys (JObj a) (Some props) = JObj (filter (\<lambda>kv. fst kv \<in> fst ` set props) a)"
| "stripKeys v _ = v"

function (sequential)
  validate :: "codec \<Rightarrow> jsval \<Rightarrow> validation" and
  validate_items :: "codec \<Rightarrow> jsval list \<Rightarrow> jsval list \<times> jsval list" and
  validate_interface ::
    "(string \<times> codec) list \<Rightarrow> (string \<times> jsval) list \<Rightarrow> jsval list \<times> (string \<times> jsval) list" and
  validate_partial ::
    "(string \<times> codec) list \<Rightarrow> (string \<times> jsval) list \<Rightarrow> jsval list \<times> (string \<times> jsval) list"
where
  "validate (Type _ _ v _) u = v u"
| "validate (OtherType _ _ v) u = v u"
| "validate (StringType _) u = (if typeof u = ''string'' then success u else failure u)"
| "validate (NumberType _) u = (if typeof u = ''number'' then success u else failure u)"
| "validate (BooleanType _) u = (if typeof u = ''boolean'' then success u else failure u)"
| "validate (ArrayType _ item) u =
     (case u of
        JArr us \<Rightarrow>
          (case validate_items item us of
             (errors, as) \<Rightarrow> if errors \<noteq> [] then Inl errors else success (JArr as))
      | _ \<Rightarrow> failure u)"
| "validate (InterfaceType _ props) u =
     (case u of
        JObj obj \<Rightarrow>
          (case validate_interface props obj of
             (errors, a) \<Rightarrow> if errors \<noteq> [] then Inl errors else success (JObj a))
      | _ \<Rightarrow> failure u)"
| "validate (PartialType _ props) u =
     (case u of
        JObj obj \<Rightarrow>
          (case validate_partial props obj of
             (errors, a) \<Rightarrow> if errors \<noteq> [] then Inl errors else success (JObj a))
      | _ \<Rightarrow> failure u)"
| "validate (ExactType _ t) u =
     (if \<not> UnknownRecord_is u then failure u
      else (case validate t u of
              Inl errors \<Rightarrow> Inl errors
            | Inr a \<Rightarrow> Inr (stripKeys a (io_ts_getProps t))))"
| "validate (RefinementType _ t predicate) u =
     (case validate t u of
        Inl errors \<Rightarrow> Inl errors
      | Inr a \<Rightarrow> if predicate a then success a else failure a)"
| "validate_items item [] = ([], [])"
| "validate_items item (ui # us) =
     (case validate item ui of
        Inl es \<Rightarrow> (case validate_items item us of (errors, as) \<Rightarrow> (es @ errors, ui # as))
      | Inr ai \<Rightarrow> (case validate_items item us of (errors, as) \<Rightarrow> (errors, ai # as)))"
| "validate_interface [] a = ([], a)"
| "validate_interface ((k, t) # props) a =
     (let ak = get_prop a k in
      case validate t ak of
        Inl es \<Rightarrow> (case validate_interface props a of (errors, a') \<Rightarrow> (es @ errors, a'))
      | Inr vak \<Rightarrow>
          validate_interface props
            (if vak \<noteq> ak \<or> (vak = JUndefined \<and> k \<notin> fst ` set a) then set_prop a k vak
             else a))"
| "validate_partial [] a = ([], a)"
| "validate_partial ((k, t) # props) a =
     (let ak = get_prop a k in
      case validate t ak of
        Inl es \<Rightarrow>
          (case validate_partial props a of
             (errors, a') \<Rightarrow> ((if ak \<noteq> JUndefined then es else []) @ errors, a'))
      | Inr vak \<Rightarrow> validate_partial props (if vak \<noteq> ak then set_prop a k vak else a))"
  by pat_completeness auto
termination
  by (relation "measures
        [\<lambda>x. case x of
            Inl (Inl (c, _)) \<Rightarrow> size c
          | Inl (Inr (item, _)) \<Rightarrow> size item
          | Inr (Inl (props, _)) \<Rightarrow> size_list (size_prod (\<lambda>_. 0) size) props
          | Inr (Inr (props, _)) \<Rightarrow> size_list (size_prod (\<lambda>_. 0) size) props,
         \<lambda>x. case x of
            Inl (Inl _) \<Rightarrow> 0
          | Inl (Inr (_, us)) \<Rightarrow> Suc (length us)
          | Inr _ \<Rightarrow> 0]")
     auto

text \<open>\<open>codec.decode(u)\<close> is \<open>validate\<close> with the root context.\<close>

definition decode :: "codec \<Rightarrow> jsval \<Rightarrow> validation" where
  "decode c u = validate c u"

section \<open>The branded codecs of the route\<close>

definition t_string :: codec where
  "t_string = StringType ''string''"

definition t_number :: codec where
  "t_number = NumberType ''number''"

text \<open>\<open>t.array(item)\<close> and \<open>t.type(props)\<close>, with the names io-ts gives them.\<close>

definition t_array :: "codec \<Rightarrow> codec" where
  "t_array item = ArrayType (''Array<'' @ name item @ ''>'') item"

fun props_names :: "(string \<times> codec) list \<Rightarrow> string" where
  "props_names [] = []"
| "props_names [(k, t)] = k @ '': '' @ name t"
| "props_names ((k, t) # props) = k @ '': '' @ name t @ '', '' @ props_names props"

definition t_type :: "(string \<times> codec) list \<Rightarrow> codec" where
  "t_type props = InterfaceType (''{ '' @ props_names props @ '' }'') props"

text \<open>\<open>Uuid\<close>.\<close>

fun Uuid_is :: "jsval \<Rightarrow> bool" where
  "Uuid_is (JStringObj _) = True"
| "Uuid_is _ = False"

definition Uuid_validate :: "jsval \<Rightarrow> validation" where
  "Uuid_validate u = validate t_string u"

definition Uuid_encode :: "jsval \<Rightarrow> error + jsval" where
  "Uuid_encode a = Inr a"

definition Uuid :: codec where
  "Uuid = Type ''Uuid'' Uuid_is Uuid_validate Uuid_encode"

text \<open>
  \<open>CurrencyFromString\<close>. \<open>new Decimal(n)\<close> accepts every number (\<open>NaN\<close> and the
  infinities too), so the \<open>catch\<close> is kept but never taken after \<open>t.number\<close>;
  \<open>toNumber\<close> gives the value back as a number, an infinity when it is beyond the
  range of doubles (rounding inside the range is not modelled). Calling
  \<open>a.toNumber()\<close> on anything but a \<open>Decimal\<close> is a TypeError.
\<close>

definition new_Decimal :: "jsnum \<Rightarrow> error + decimal" where
  "new_Decimal n = Inr (Decimal n)"

fun toNumber :: "decimal \<Rightarrow> jsnum" where
  "toNumber (Decimal (Finite q)) =
     (if 2 ^ 1024 - 2 ^ 970 \<le> \<bar>q\<bar> then (if q < 0 then NegInfinity else PosInfinity)
      else Finite q)"
| "toNumber (Decimal n) = n"

fun CurrencyFromString_is :: "jsval \<Rightarrow> bool" where
  "CurrencyFromString_is (JDecimal _) = True"
| "CurrencyFromString_is _ = False"

definition CurrencyFromString_validate :: "jsval \<Rightarrow> validation" where
  "CurrencyFromString_validate s =
     (case validate t_number s of
        Inl errors \<Rightarrow> Inl errors
      | Inr s' \<Rightarrow>
          (case s' of
             JNum n \<Rightarrow>
               (case new_Decimal n of
                  Inr d \<Rightarrow> success (JDecimal d)
                | Inl _ \<Rightarrow> failure s')
           | _ \<Rightarrow> failure s'))"

fun CurrencyFromString_encode :: "jsval \<Rightarrow> error + jsval" where
  "CurrencyFromString_encode (JDecimal a) = Inr (JNum (toNumber a))"
| "CurrencyFromString_encode _ = Inl TypeError"

definition CurrencyFromString :: codec where
  "CurrencyFromString =
     Type ''CurrencyFromString'' CurrencyFromString_is CurrencyFromString_validate
       CurrencyFromString_encode"

text \<open>
  \<open>DateFromISOString\<close>. \<open>format\<close> first turns its argument into a \<open>Date\<close>
  (\<open>toDate\<close>: a \<open>Date\<close> is taken as it is, a number as a time value, anything else
  gives an Invalid Date).
\<close>

fun DateFromISOString_is :: "jsval \<Rightarrow> bool" where
  "DateFromISOString_is (JDate _) = True"
| "DateFromISOString_is _ = False"

definition DateFromISOString_validate :: "datefns \<Rightarrow> jsval \<Rightarrow> validation" where
  "DateFromISOString_validate L s =
     (case validate t_string s of
        Inl errors \<Rightarrow> Inl errors
      | Inr s' \<Rightarrow>
          (case s' of
             JStr str \<Rightarrow>
               (let parsedDate = parseISO L str in
                if isValid parsedDate then success (JDate parsedDate) else failure s')
           | _ \<Rightarrow> failure s'))"

fun toDate :: "jsval \<Rightarrow> date" where
  "toDate (JDate d) = d"
| "toDate (JNum (Finite q)) =
     (if \<bar>q\<bar> \<le> 8640000000000000 then Date (if q < 0 then \<lceil>q\<rceil> else \<lfloor>q\<rfloor>) else InvalidDate)"
| "toDate _ = InvalidDate"

definition DateFromISOString_encode :: "datefns \<Rightarrow> jsval \<Rightarrow> error + jsval" where
  "DateFromISOString_encode L a =
     (case format_yyyy_MM_dd L (toDate a) of Inl e \<Rightarrow> Inl e | Inr s \<Rightarrow> Inr (JStr s))"

definition DateFromISOString :: "datefns \<Rightarrow> codec" where
  "DateFromISOString L =
     Type ''DateFromStringISO'' DateFromISOString_is (DateFromISOString_validate L)
       (DateFromISOString_encode L)"

text \<open>\<open>QuotationCodec\<close> and the \<open>loader\<close>: generate, then decode with the same codec.\<close>

definition QuotationCodec :: "datefns \<Rightarrow> codec" where
  "QuotationCodec L =
     t_type
       [(''id'', Uuid),
        (''createdAt'', DateFromISOString L),
        (''productComboId'', Uuid),
        (''totalAmount'', CurrencyFromString),
        (''validUntil'', DateFromISOString L),
        (''productQuotations'',
           t_array
             (t_type
                [(''amountNetOfIof'', CurrencyFromString),
                 (''totalAmount'', CurrencyFromString),
                 (''iofAmount'', CurrencyFromString)]))]"

definition generate_then_decode :: "codec \<Rightarrow> rng \<Rightarrow> error + jsval" where
  "generate_then_decode c rng =
     (case generate c rng of
        (Inl e, _) \<Rightarrow> Inl e
      | (Inr v, _) \<Rightarrow>
          (case decode c v of Inl errors \<Rightarrow> Inl (DecodeError errors) | Inr a \<Rightarrow> Inr a))"

definition loader :: "datefns \<Rightarrow> rng \<Rightarrow> error + jsval" where
  "loader L rng = generate_then_decode (QuotationCodec L) rng"

section \<open>Schemas and a host used as inputs\<close>

text \<open>
  Inputs for the properties below: \<open>t.Int\<close> of io-ts (a refinement of \<open>t.number\<close> by
  \<open>Number.isInteger\<close>), a refinement of an array of booleans to the non-empty ones,
  a host in the time zone of Sao Paulo whose \<open>parseISO\<close> is given on one
  string, and the same host with UTC as its local time.
\<close>

definition Number_isInteger :: "jsval \<Rightarrow> bool" where
  "Number_isInteger v = (case v of JNum (Finite q) \<Rightarrow> q \<in> \<int> | _ \<Rightarrow> False)"

definition t_Int :: codec where
  "t_Int = RefinementType ''Int'' t_number Number_isInteger"

definition isNonEmptyArray :: "jsval \<Rightarrow> bool" where
  "isNonEmptyArray v = (case v of JArr xs \<Rightarrow> xs \<noteq> [] | _ \<Rightarrow> False)"

definition NonEmptyBooleans :: codec where
  "NonEmptyBooleans =
     RefinementType ''NonEmptyBooleans'' (ArrayType ''Array<boolean>'' (BooleanType ''boolean''))
       isNonEmptyArray"

definition saoPaulo :: datefns where
  "saoPaulo =
     \<lparr>parseISO =
        (\<lambda>s. if s = ''2024-02-29T12:34:56.789Z'' then Date 1709210096789 else InvalidDate),
      zoneOffset = (\<lambda>_. - 10800000)\<rparr>"

definition utc :: datefns where
  "utc = \<lparr>parseISO = parseISO saoPaulo, zoneOffset = (\<lambda>_. 0)\<rparr>"

section \<open>The nodes the round trip is proved for\<close>

text \<open>
  The three branded codecs, and the leaves, arrays and structs built over them whose
  own names are not reserved; the keys of a struct are distinct, and an exact node
  wraps a struct. \<open>decodable c\<close>: whatever the random source, \<open>generate c\<close> returns
  a value and \<open>c\<close> decodes it.
\<close>

definition reserved :: "string \<Rightarrow> bool" where
  "reserved n = (n = ''DateFromStringISO'' \<or> n = ''Uuid'' \<or> n = ''CurrencyFromString'')"

inductive supported :: "datefns \<Rightarrow> codec \<Rightarrow> bool" for L :: datefns where
  sup_Uuid: "supported L Uuid"
| sup_Currency: "supported L CurrencyFromString"
| sup_Date: "supported L (DateFromISOString L)"
| sup_String: "\<not> reserved n \<Longrightarrow> supported L (StringType n)"
| sup_Number: "\<not> reserved n \<Longrightarrow> supported L (NumberType n)"
| sup_Boolean: "\<not> reserved n \<Longrightarrow> supported L (BooleanType n)"
| sup_Array: "\<not> reserved n \<Longrightarrow> supported L t \<Longrightarrow> supported L (ArrayType n t)"
| sup_Interface:
    "\<not> reserved n \<Longrightarrow> distinct (map fst props) \<Longrightarrow> (\<forall>kt\<in>set props. supported L (snd kt)) \<Longrightarrow>
     supported L (InterfaceType n props)"
| sup_Partial:
    "\<not> reserved n \<Longrightarrow> distinct (map fst props) \<Longrightarrow> (\<forall>kt\<in>set props. supported L (snd kt)) \<Longrightarrow>
     supported L (PartialType n props)"
| sup_Exact:
    "\<not> reserved n \<Longrightarrow> supported L t \<Longrightarrow> getProps t \<noteq> None \<Longrightarrow> supported L (ExactType n t)"

definition decodable :: "codec \<Rightarrow> bool" where
  "decodable c = (\<forall>rng. \<exists>v r a. generate c rng = (Inr v, r) \<and> validate c v = Inr a)"

section \<open>Properties\<close>

lemma startsWith_slash: "startsWith s ''/'' \<longleftrightarrow> (\<exists>r. s = CHR ''/'' # r)"
  by (cases s) (auto simp: startsWith_def)

lemma startsWith_slash_slash: "startsWith s ''//'' \<longleftrightarrow> (\<exists>r. s = CHR ''/'' # CHR ''/'' # r)"
proof (cases s)
  case Nil
  then show ?thesis by (simp add: startsWith_def)
next
  case (Cons a r)
  then show ?thesis by (cases r) (auto simp: startsWith_def)
qed

subsection \<open>safeRedirect\<close>

text \<open>
  C10. \<open>safeRedirect\<close> returns \<open>to\<close> itself exactly when \<open>to\<close> is a string that
  starts with \<open>/\<close> (so it is not empty) and does not start with \<open>//\<close>; for every
  other input (\<open>null\<close>, \<open>undefined\<close>, a value that is no string, the empty string, an
  external or protocol-relative URL) it returns the default redirect unchanged, which
  is \<open>/\<close> when the caller gives none.
\<close>

theorem safeRedirect_guard:
  "safeRedirect to d =
     (if (\<exists>r. to = JStr (CHR ''/'' # r) \<and> \<not> (\<exists>r'. r = CHR ''/'' # r'))
      then to
      else JStr (case d of None \<Rightarrow> ''/'' | Some x \<Rightarrow> x))"
proof (cases to)
  case (JStr s)
  show ?thesis
  proof (cases s)
    case Nil
    with JStr show ?thesis
      by (simp add: safeRedirect_def DEFAULT_REDIRECT_def split: option.splits)
  next
    case (Cons a r)
    with JStr show ?thesis
      by (auto simp: safeRedirect_def DEFAULT_REDIRECT_def startsWith_slash
            startsWith_slash_slash split: option.splits)
  qed
next
  case (JNum n)
  then show ?thesis
    by (cases n) (auto simp: safeRedirect_def DEFAULT_REDIRECT_def split: option.splits)
qed (auto simp: safeRedirect_def DEFAULT_REDIRECT_def split: option.splits)

theorem safeRedirect_guard_witness:
  "safeRedirect (JStr ''/notes'') None = JStr ''/notes''
   \<and> safeRedirect (JStr ''//evil.example'') (Some ''/login'') = JStr ''/login''
   \<and> safeRedirect (JStr ''https://evil.example'') None = JStr ''/''
   \<and> safeRedirect (JStr []) (Some ''/login'') = JStr ''/login''
   \<and> safeRedirect JNull None = JStr ''/''"
  using safeRedirect_guard [of "JStr ''/notes''" None]
    safeRedirect_guard [of "JStr ''//evil.example''" "Some ''/login''"]
    safeRedirect_guard [of "JStr ''https://evil.example''" None]
    safeRedirect_guard [of "JStr []" "Some ''/login''"]
    safeRedirect_guard [of JNull None]
  by simp

subsection \<open>Codecs that generate has no case for\<close>

text \<open>
  C9. For a node whose name is none of the three reserved names and whose tag is one
  that the switch of \<open>generate\<close> has no case for (unknown, undefined, void, null,
  keyof, literal, dictionary, tuple, union, intersection), \<open>generate\<close> returns
  \<open>undefined\<close>: it does not throw, and it reads nothing from the random source.
\<close>

theorem generate_unsupported_undefined:
  "n \<noteq> ''DateFromStringISO'' \<Longrightarrow> n \<noteq> ''Uuid'' \<Longrightarrow> n \<noteq> ''CurrencyFromString'' \<Longrightarrow>
   generate (OtherType tag n v) rng = (Inr JUndefined, rng)"
  by (simp add: generate.simps)

theorem generate_unsupported_undefined_witness:
  "generate (OtherType UnionType ''(string | number)'' (\<lambda>u. Inl [u])) [7, 8]
     = (Inr JUndefined, [7, 8])
   \<and> generate (OtherType NullType ''null'' (\<lambda>u. Inl [u])) [] = (Inr JUndefined, [])"
  using
    generate_unsupported_undefined [of "''(string | number)''" UnionType "\<lambda>u. Inl [u]" "[7, 8]"]
    generate_unsupported_undefined [of "''null''" NullType "\<lambda>u. Inl [u]" "[]"]
  by simp

subsection \<open>The Uuid codec\<close>

text \<open>
  C7. Decoding with \<open>Uuid\<close> succeeds exactly when the input is a string (a primitive
  string, as \<open>t.string\<close> checks it), and then returns the string unchanged; no shape
  of a UUID is asked for.
\<close>

theorem Uuid_decode_lenient:
  "decode Uuid u = (case u of JStr s \<Rightarrow> Inr (JStr s) | _ \<Rightarrow> Inl [u])"
  by (cases u)
    (simp_all add: decode_def Uuid_def Uuid_validate_def t_string_def success_def failure_def)

theorem Uuid_decode_lenient_witness:
  "decode Uuid (JStr ''not a uuid'') = Inr (JStr ''not a uuid'')
   \<and> decode Uuid (JNum (Finite 7)) = Inl [JNum (Finite 7)]
   \<and> decode Uuid (JStringObj ''x'') = Inl [JStringObj ''x'']"
  using Uuid_decode_lenient [of "JStr ''not a uuid''"] Uuid_decode_lenient [of "JNum (Finite 7)"]
    Uuid_decode_lenient [of "JStringObj ''x''"]
  by simp

subsection \<open>Named short-circuits\<close>

lemma replacePlaceholders_length:
  "replacePlaceholders cs rng = (out, r) \<Longrightarrow> length out = length cs"
  by (induction cs arbitrary: rng out r) (auto split: prod.splits if_splits)

lemma faker_datatype_uuid_string:
  "\<exists>s r. faker_datatype_uuid rng = (JStr s, r) \<and> length s = 36"
proof -
  obtain out r where o: "replacePlaceholders RFC4122_TEMPLATE rng = (out, r)"
    by (cases "replacePlaceholders RFC4122_TEMPLATE rng")
  from replacePlaceholders_length [OF o] have "length out = 36"
    by (simp add: RFC4122_TEMPLATE_def)
  with o show ?thesis by (simp add: faker_datatype_uuid_def)
qed

lemma faker_date_past_valid: "\<exists>t r. faker_date_past rng = (Date t, r)"
  by (simp add: faker_date_past_def split: prod.splits)

lemma toISOString_Date: "\<exists>s. toISOString (Date t) = Inr s"
  by (simp add: toISOString_def Let_def split: prod.splits)

lemma faker_datatype_number_between_le:
  assumes "lo \<le> hi" and "faker_datatype_number_between lo hi rng = (n, r)"
  shows "lo \<le> n \<and> n \<le> hi"
proof -
  obtain x where n: "n = lo + x mod (hi - lo + 1)"
    using assms(2) by (auto simp: faker_datatype_number_between_def split: prod.splits)
  have "x mod (hi - lo + 1) < hi - lo + 1" by simp
  with assms(1) n show ?thesis by linarith
qed

lemma faker_datatype_float_two_decimals:
  "\<exists>k r. k \<le> 9999900 \<and> faker_datatype_float rng = (JNum (Finite (of_nat k / 100)), r)"
proof -
  obtain n r where e: "faker_datatype_number_between 0 9999900 rng = (n, r)"
    by (cases "faker_datatype_number_between 0 9999900 rng")
  from faker_datatype_number_between_le [OF _ e] have "n \<le> 9999900" by simp
  with e show ?thesis by (auto simp: faker_datatype_float_def)
qed

text \<open>
  C2. A node whose name is one of the three reserved names is generated by the branch
  of that name, whatever its class: the ISO string of a past date, a string of the
  shape of a UUID (36 characters), or the float that \<open>faker.datatype.float\<close> gives
  with precision \<open>0.01\<close> (a whole number of hundredths). So a \<open>NumberType\<close> named
  as the currency codec goes through the currency branch, not the number leaf.
\<close>

theorem generate_named_short_circuit:
  "(name c = ''DateFromStringISO'' \<longrightarrow>
      generate c rng =
        (case faker_date_past rng of
           (d, r1) \<Rightarrow>
             (case toISOString d of Inl e \<Rightarrow> (Inl e, r1) | Inr s \<Rightarrow> (Inr (JStr s), r1)))
      \<and> (\<exists>s. fst (generate c rng) = Inr (JStr s)))
   \<and> (name c = ''Uuid'' \<longrightarrow>
      generate c rng = (case faker_datatype_uuid rng of (v, r1) \<Rightarrow> (Inr v, r1))
      \<and> (\<exists>s. fst (generate c rng) = Inr (JStr s) \<and> length s = 36))
   \<and> (name c = ''CurrencyFromString'' \<longrightarrow>
      generate c rng = (case faker_datatype_float rng of (v, r1) \<Rightarrow> (Inr v, r1))
      \<and> (\<exists>k. k \<le> 9999900 \<and> fst (generate c rng) = Inr (JNum (Finite (of_nat k / 100)))))"
proof (intro conjI impI)
  assume n: "name c = ''DateFromStringISO''"
  then show g: "generate c rng =
        (case faker_date_past rng of
           (d, r1) \<Rightarrow>
             (case toISOString d of Inl e \<Rightarrow> (Inl e, r1) | Inr s \<Rightarrow> (Inr (JStr s), r1)))"
    by (simp add: generate.simps)
  obtain t r where p: "faker_date_past rng = (Date t, r)"
    using faker_date_past_valid by blast
  obtain s where "toISOString (Date t) = Inr s"
    using toISOString_Date by blast
  with g p show "\<exists>s. fst (generate c rng) = Inr (JStr s)" by simp
next
  assume n: "name c = ''Uuid''"
  then show g: "generate c rng = (case faker_datatype_uuid rng of (v, r1) \<Rightarrow> (Inr v, r1))"
    by (simp add: generate.simps)
  obtain s r where "faker_datatype_uuid rng = (JStr s, r)" "length s = 36"
    using faker_datatype_uuid_string by blast
  with g show "\<exists>s. fst (generate c rng) = Inr (JStr s) \<and> length s = 36" by simp
next
  assume n: "name c = ''CurrencyFromString''"
  then show g: "generate c rng = (case faker_datatype_float rng of (v, r1) \<Rightarrow> (Inr v, r1))"
    by (simp add: generate.simps)
  obtain k r where "k \<le> 9999900" "faker_datatype_float rng = (JNum (Finite (of_nat k / 100)), r)"
    using faker_datatype_float_two_decimals by blast
  with g show "\<exists>k. k \<le> 9999900 \<and> fst (generate c rng) = Inr (JNum (Finite (of_nat k / 100)))"
    by auto
qed

theorem generate_named_short_circuit_witness:
  "generate (NumberType ''CurrencyFromString'') [123457] = (Inr (JNum (Finite (123457 / 100))), [])
   \<and> faker_datatype_number [123457] = (JNum (Finite 23457), [])"
  using generate_named_short_circuit [of "NumberType ''CurrencyFromString''" "[123457]"]
  by (simp add: faker_datatype_float_def faker_datatype_number_def
        faker_datatype_number_between_def)

subsection \<open>Arrays\<close>

text \<open>
  Rounding. \<open>nearest_double n\<close> is a significand of 53 bits at most, scaled by the
  bits in excess, which are as few as that allows; it is within half a unit of the last
  place of \<open>n\<close>, and a tie goes to the even significand. So the count of an array,
  \<open>Math.floor(Math.random() * 10)\<close>, is the floor of the rounded product, and is
  below 10.
\<close>

lemma excess_bits_small: "n < 2 ^ 53 \<Longrightarrow> excess_bits n = 0"
  by (subst excess_bits.simps) simp

lemma excess_bits_large: "\<not> n < 2 ^ 53 \<Longrightarrow> excess_bits n = Suc (excess_bits (n div 2))"
  by (subst excess_bits.simps) simp

lemma excess_bits_le: "n < 2 ^ (53 + k) \<Longrightarrow> excess_bits n \<le> k"
proof (induction k arbitrary: n)
  case 0
  then show ?case by (simp add: excess_bits_small)
next
  case (Suc k)
  show ?case
  proof (cases "n < 2 ^ 53")
    case True
    then show ?thesis by (simp add: excess_bits_small)
  next
    case False
    from Suc.prems have "n < 2 * 2 ^ (53 + k)" by (simp only: add_Suc_right power_Suc)
    then have "n div 2 < 2 ^ (53 + k)" by (simp add: less_mult_imp_div_less mult.commute)
    from Suc.IH [OF this] False show ?thesis by (simp add: excess_bits_large)
  qed
qed

lemma round_half_even_upper: "2 * (round_half_even n s * 2 ^ s) \<le> 2 * n + 2 ^ s"
proof -
  define P :: nat where "P = 2 ^ s"
  define q where "q = n div P"
  define r where "r = n mod P"
  have n: "n = q * P + r" unfolding q_def r_def by simp
  show ?thesis
  proof (cases "2 * r > P \<or> (2 * r = P \<and> odd q)")
    case True
    then have "P \<le> 2 * r" by auto
    moreover from True have "round_half_even n s = q + 1"
      unfolding round_half_even_def Let_def P_def [symmetric] q_def [symmetric]
        r_def [symmetric] by simp
    ultimately show ?thesis
      unfolding P_def [symmetric] n by (simp add: algebra_simps)
  next
    case False
    then have "round_half_even n s = q"
      unfolding round_half_even_def Let_def P_def [symmetric] q_def [symmetric]
        r_def [symmetric] by simp
    then show ?thesis unfolding P_def [symmetric] n by (simp add: algebra_simps)
  qed
qed

lemma round_half_even_lower: "2 * n \<le> 2 * (round_half_even n s * 2 ^ s) + 2 ^ s"
proof -
  define P :: nat where "P = 2 ^ s"
  define q where "q = n div P"
  define r where "r = n mod P"
  have n: "n = q * P + r" unfolding q_def r_def by simp
  have P: "0 < P" unfolding P_def by simp
  then have r: "r < P" unfolding r_def by simp
  show ?thesis
  proof (cases "2 * r > P \<or> (2 * r = P \<and> odd q)")
    case True
    then have "round_half_even n s = q + 1"
      unfolding round_half_even_def Let_def P_def [symmetric] q_def [symmetric]
        r_def [symmetric] by simp
    then show ?thesis
      using r unfolding P_def [symmetric] n by (simp add: algebra_simps)
  next
    case False
    then have "2 * r \<le> P" by auto
    moreover from False have "round_half_even n s = q"
      unfolding round_half_even_def Let_def P_def [symmetric] q_def [symmetric]
        r_def [symmetric] by simp
    ultimately show ?thesis unfolding P_def [symmetric] n by (simp add: algebra_simps)
  qed
qed

lemma excess_bits_significand: "n div 2 ^ excess_bits n < 2 ^ 53"
proof (induction n rule: excess_bits.induct)
  case (1 n)
  show ?case
  proof (cases "n < 2 ^ 53")
    case True
    then show ?thesis by (simp add: excess_bits_small)
  next
    case False
    have s: "excess_bits n = Suc (excess_bits (n div 2))" using False by (rule excess_bits_large)
    have "n div 2 ^ Suc (excess_bits (n div 2)) = n div 2 div 2 ^ excess_bits (n div 2)"
      by (simp add: div_mult2_eq)
    with "1.IH" [OF False] show ?thesis unfolding s by simp
  qed
qed

lemma excess_bits_least: "excess_bits n = Suc j \<Longrightarrow> 2 ^ 53 \<le> n div 2 ^ j"
proof (induction n arbitrary: j rule: excess_bits.induct)
  case (1 n)
  show ?case
  proof (cases "n < 2 ^ 53")
    case True
    with "1.prems" show ?thesis by (simp add: excess_bits_small)
  next
    case False
    with "1.prems" have e: "excess_bits (n div 2) = j" by (simp add: excess_bits_large)
    show ?thesis
    proof (cases j)
      case 0
      with False show ?thesis by simp
    next
      case (Suc i)
      from "1.IH" [OF False] e Suc have "2 ^ 53 \<le> n div 2 div 2 ^ i" by simp
      then show ?thesis unfolding Suc by (simp add: div_mult2_eq)
    qed
  qed
qed

lemma round_half_even_significand: "round_half_even n (excess_bits n) \<le> 2 ^ 53"
proof -
  have "round_half_even n s \<le> n div 2 ^ s + 1" for s
    by (simp add: round_half_even_def Let_def)
  from this [of "excess_bits n"] excess_bits_significand [of n] show ?thesis by simp
qed

lemma nearest_double_ties:
  "nearest_double (2 ^ 53 + 1) = 2 ^ 53 \<and> nearest_double (2 ^ 53 + 3) = 2 ^ 53 + 4"
  by (simp add: nearest_double_def round_half_even_def excess_bits_small excess_bits_large)

lemma nearest_double_times_10:
  assumes "m < 2 ^ 53"
  shows "nearest_double (10 * m) div 2 ^ 53 < 10"
proof -
  from assms have m: "10 * m + 10 \<le> 10 * 2 ^ 53" by simp
  then have "10 * m < 2 ^ (53 + 4)" by simp
  then have "excess_bits (10 * m) \<le> 4" by (rule excess_bits_le)
  then have "(2::nat) ^ excess_bits (10 * m) \<le> 2 ^ 4" by (rule power_increasing) simp
  with round_half_even_upper [of "10 * m" "excess_bits (10 * m)"]
  have "2 * nearest_double (10 * m) \<le> 2 * (10 * m) + 16"
    unfolding nearest_double_def by simp
  with m have "nearest_double (10 * m) < 10 * 2 ^ 53" by simp
  then show ?thesis by (simp add: less_mult_imp_div_less)
qed

lemma Math_floor_random:
  "Math_random rng = (x, r) \<Longrightarrow>
   nat \<lfloor>double_times x 10\<rfloor> = nearest_double (10 * (fst (draw rng) mod 2 ^ 53)) div 2 ^ 53"
proof -
  assume e: "Math_random rng = (x, r)"
  define m where "m = fst (draw rng) mod 2 ^ 53"
  have x: "x = of_nat m / 2 ^ 53"
    using e unfolding Math_random_def m_def by (cases "draw rng") auto
  have "x * 10 * 2 ^ 53 = of_nat (10 * m)" unfolding x by simp
  then have "\<lfloor>x * 10 * 2 ^ 53\<rfloor> = int (10 * m)" by (simp only: floor_of_nat)
  then have p: "nat \<lfloor>x * 10 * 2 ^ 53\<rfloor> = 10 * m" by (simp only: nat_int)
  have "double_times x 10 = of_nat (nearest_double (10 * m)) / of_nat (2 ^ 53)"
    unfolding double_times_def p by simp
  then have "\<lfloor>double_times x 10\<rfloor> = int (nearest_double (10 * m) div 2 ^ 53)"
    by (simp only: floor_divide_of_nat_eq)
  then show ?thesis unfolding m_def by simp
qed

lemma Math_random_count: "Math_random rng = (x, r) \<Longrightarrow> nat \<lfloor>double_times x 10\<rfloor> < 10"
proof -
  assume e: "Math_random rng = (x, r)"
  have "fst (draw rng) mod 2 ^ 53 < (2 ^ 53 :: nat)" by simp
  from nearest_double_times_10 [OF this] Math_floor_random [OF e] show ?thesis by simp
qed

lemma nearest_double_zero: "nearest_double 0 = 0"
  by (simp add: nearest_double_def round_half_even_def excess_bits_small)

lemma nearest_double_quarter: "nearest_double 22517998136852480 = 22517998136852480"
  by (simp add: nearest_double_def round_half_even_def excess_bits_small excess_bits_large)

lemma nearest_double_seven_tenths: "nearest_double 63050394783186940 = 63050394783186944"
  by (simp add: nearest_double_def round_half_even_def excess_bits_small excess_bits_large)

lemma generate_elems_numeral:
  "generate_elems t (numeral k) rng =
     (case generate t rng of
        (Inl e, r1) \<Rightarrow> (Inl e, r1)
      | (Inr v, r1) \<Rightarrow>
          (case generate_elems t (pred_numeral k) r1 of
             (Inl e, r2) \<Rightarrow> (Inl e, r2)
           | (Inr vs, r2) \<Rightarrow> (Inr (v # vs), r2)))"
  by (simp add: numeral_eq_Suc)

lemma generate_ArrayType_draw:
  assumes "n \<noteq> ''DateFromStringISO''" and "n \<noteq> ''Uuid''" and "n \<noteq> ''CurrencyFromString''"
  shows "generate (ArrayType n t) rng =
     (case generate_elems t (nearest_double (10 * (fst (draw rng) mod 2 ^ 53)) div 2 ^ 53)
             (snd (draw rng)) of
        (Inl e, r2) \<Rightarrow> (Inl e, r2)
      | (Inr vs, r2) \<Rightarrow> (Inr (JArr vs), r2))"
proof -
  obtain x r1 where m: "Math_random rng = (x, r1)" by (cases "Math_random rng")
  then have r1: "r1 = snd (draw rng)"
    by (auto simp: Math_random_def split: prod.splits)
  from assms m show ?thesis
    by (simp add: generate.simps Math_floor_random [OF m] r1)
qed

lemma generate_elems_Inr:
  "generate_elems t k rng = (Inr vs, r) \<Longrightarrow>
   length vs = k \<and> (\<forall>v\<in>set vs. \<exists>r0 r1. generate t r0 = (Inr v, r1))"
proof (induction k arbitrary: rng vs r)
  case 0
  then show ?case by simp
next
  case (Suc k)
  from Suc.prems obtain v r1 vs' where
    g: "generate t rng = (Inr v, r1)" and
    e: "generate_elems t k r1 = (Inr vs', r)" and
    vs: "vs = v # vs'"
    by (auto split: prod.splits sum.splits)
  from Suc.IH [OF e] g vs show ?case by auto
qed

lemma generate_elems_returns:
  "(\<forall>r. \<exists>v r'. generate t r = (Inr v, r')) \<Longrightarrow> \<exists>vs r'. generate_elems t k rng = (Inr vs, r')"
proof (induction k arbitrary: rng)
  case 0
  then show ?case by simp
next
  case (Suc k)
  from Suc.prems obtain v r1 where g: "generate t rng = (Inr v, r1)" by blast
  from Suc.IH [OF Suc.prems] obtain vs r' where "generate_elems t k r1 = (Inr vs, r')" by blast
  with g show ?case by simp
qed

lemma faker_datatype_boolean_odd:
  "faker_datatype_boolean rng = (JBool (odd (fst (draw rng))), snd (draw rng))"
proof -
  have "(1::nat) - 0 + 1 = 2" by simp
  then show ?thesis
    by (cases "draw rng")
      (simp only: faker_datatype_boolean_def faker_datatype_number_between_def
         odd_iff_mod_2_eq_one prod.case fst_conv snd_conv add_0)
qed

lemma generate_Array_boolean_two:
  "generate (ArrayType ''Array<boolean>'' (BooleanType ''boolean'')) [2251799813685248, 3, 2, 7]
     = (Inr (JArr [JBool True, JBool False]), [7])"
proof -
  have a: "generate (ArrayType ''Array<boolean>'' (BooleanType ''boolean''))
             [2251799813685248, 3, 2, 7]
           = (case generate_elems (BooleanType ''boolean'') 2 [3, 2, 7] of
                (Inl e, r2) \<Rightarrow> (Inl e, r2)
              | (Inr vs, r2) \<Rightarrow> (Inr (JArr vs), r2))"
    by (subst generate_ArrayType_draw) (simp_all add: nearest_double_quarter)
  show ?thesis
    unfolding a
    by (simp add: generate_elems_numeral generate.simps faker_datatype_boolean_odd)
qed

text \<open>
  C5, amended. For an array node whose name is none of the three reserved names,
  \<open>generate\<close> draws a count \<open>Math.floor(Math.random() * 10)\<close>, the product taken in
  doubles; the count is below 10, and \<open>generate\<close> generates the element node that many
  times, in order. Whenever it returns a value, the value is the array of the results,
  of that length (so below 10), and it does return when generating the element node
  always returns. The count 0, and with it the empty array, is a possible outcome.
\<close>

theorem generate_array_bounds:
  assumes "n \<noteq> ''DateFromStringISO''" and "n \<noteq> ''Uuid''" and "n \<noteq> ''CurrencyFromString''"
  shows "(\<exists>x r1. Math_random rng = (x, r1) \<and> nat \<lfloor>double_times x 10\<rfloor> < 10
            \<and> generate (ArrayType n t) rng =
                (case generate_elems t (nat \<lfloor>double_times x 10\<rfloor>) r1 of
                   (Inl e, r2) \<Rightarrow> (Inl e, r2)
                 | (Inr vs, r2) \<Rightarrow> (Inr (JArr vs), r2))
            \<and> (\<forall>v r'. generate (ArrayType n t) rng = (Inr v, r') \<longrightarrow>
                  (\<exists>vs. v = JArr vs \<and> length vs = nat \<lfloor>double_times x 10\<rfloor> \<and> length vs < 10
                     \<and> (\<forall>e\<in>set vs. \<exists>r0 r1. generate t r0 = (Inr e, r1)))))
         \<and> ((\<forall>r. \<exists>v r'. generate t r = (Inr v, r')) \<longrightarrow>
              (\<exists>vs r'. generate (ArrayType n t) rng = (Inr (JArr vs), r') \<and> length vs < 10))
         \<and> generate (ArrayType n t) (0 # rest) = (Inr (JArr []), rest)"
proof -
  obtain x r1 where m: "Math_random rng = (x, r1)" by (cases "Math_random rng")
  have c: "nat \<lfloor>double_times x 10\<rfloor> < 10" using m by (rule Math_random_count)
  have g: "generate (ArrayType n t) rng =
             (case generate_elems t (nat \<lfloor>double_times x 10\<rfloor>) r1 of
                (Inl e, r2) \<Rightarrow> (Inl e, r2)
              | (Inr vs, r2) \<Rightarrow> (Inr (JArr vs), r2))"
    using assms m by (simp add: generate.simps)
  have v: "\<exists>vs. v = JArr vs \<and> length vs = nat \<lfloor>double_times x 10\<rfloor> \<and> length vs < 10
              \<and> (\<forall>e\<in>set vs. \<exists>r0 r1. generate t r0 = (Inr e, r1))"
    if r: "generate (ArrayType n t) rng = (Inr v, r')" for v r'
  proof -
    from r g obtain vs where
      e: "generate_elems t (nat \<lfloor>double_times x 10\<rfloor>) r1 = (Inr vs, r')"
      and "v = JArr vs"
      by (auto split: prod.splits sum.splits)
    with generate_elems_Inr [OF e] c show ?thesis by simp
  qed
  have tot: "\<exists>vs r'. generate (ArrayType n t) rng = (Inr (JArr vs), r') \<and> length vs < 10"
    if a: "\<forall>r. \<exists>v r'. generate t r = (Inr v, r')"
  proof -
    from generate_elems_returns [OF a] obtain vs r' where
      e: "generate_elems t (nat \<lfloor>double_times x 10\<rfloor>) r1 = (Inr vs, r')" by blast
    with generate_elems_Inr [OF e] c g show ?thesis by simp
  qed
  have z: "generate (ArrayType n t) (0 # rest) = (Inr (JArr []), rest)"
    by (subst generate_ArrayType_draw [OF assms]) (simp add: nearest_double_zero)
  from m c g v tot z show ?thesis by blast
qed

theorem generate_array_bounds_witness:
  "generate (ArrayType ''Array<boolean>'' (BooleanType ''boolean''))
       [6305039478318694, 3, 2, 3, 2, 3, 2, 3, 9]
     = (Inr (JArr [JBool True, JBool False, JBool True, JBool False, JBool True, JBool False,
                   JBool True]), [9])
   \<and> generate (ArrayType ''Array<boolean>'' (BooleanType ''boolean''))
       [2251799813685248, 3, 2, 7]
     = (Inr (JArr [JBool True, JBool False]), [7])
   \<and> generate (ArrayType ''Array<boolean>'' (BooleanType ''boolean'')) [0, 7]
     = (Inr (JArr []), [7])"
proof -
  have a: "generate (ArrayType ''Array<boolean>'' (BooleanType ''boolean''))
             [6305039478318694, 3, 2, 3, 2, 3, 2, 3, 9]
           = (case generate_elems (BooleanType ''boolean'') 7 [3, 2, 3, 2, 3, 2, 3, 9] of
                (Inl e, r2) \<Rightarrow> (Inl e, r2)
              | (Inr vs, r2) \<Rightarrow> (Inr (JArr vs), r2))"
    by (subst generate_ArrayType_draw) (simp_all add: nearest_double_seven_tenths)
  have e: "generate (ArrayType ''Array<boolean>'' (BooleanType ''boolean''))
       [6305039478318694, 3, 2, 3, 2, 3, 2, 3, 9]
     = (Inr (JArr [JBool True, JBool False, JBool True, JBool False, JBool True, JBool False,
                   JBool True]), [9])"
    unfolding a
    by (simp add: generate_elems_numeral generate.simps faker_datatype_boolean_odd)
  from generate_array_bounds [of "''Array<boolean>''"
      "[6305039478318694, 3, 2, 3, 2, 3, 2, 3, 9]" "BooleanType ''boolean''" "[7]"]
    e generate_Array_boolean_two
  show ?thesis by simp
qed

text \<open>
  C5 as stated fails for an array node that carries a reserved name: the named branch
  answers, here with a number, and no array is built.
\<close>

theorem generate_array_reserved_name_counterexample:
  "generate (ArrayType ''CurrencyFromString'' (NumberType ''number'')) [123457, 1, 2]
     = (Inr (JNum (Finite (123457 / 100))), [1, 2])"
  by (simp add: generate.simps faker_datatype_float_def faker_datatype_number_between_def)


subsection \<open>Structs\<close>

lemma generate_props_Inr:
  "generate_props props rng = (Inr kvs, r) \<Longrightarrow>
   map fst kvs = map fst props
   \<and> list_all2 (\<lambda>kv kt. \<exists>r0 r1. generate (snd kt) r0 = (Inr (snd kv), r1)) kvs props"
proof (induction props arbitrary: rng kvs r)
  case Nil
  then show ?case by simp
next
  case (Cons kt props)
  obtain k t where kt: "kt = (k, t)" by (cases kt)
  from Cons.prems kt obtain v r1 kvs' where
    g: "generate t rng = (Inr v, r1)" and
    e: "generate_props props r1 = (Inr kvs', r)" and
    kvs: "kvs = (k, v) # kvs'"
    by (auto split: prod.splits sum.splits)
  from Cons.IH [OF e] g kvs kt show ?case by auto
qed

lemma generate_props_returns:
  "(\<forall>kt\<in>set props. \<forall>r. \<exists>v r'. generate (snd kt) r = (Inr v, r')) \<Longrightarrow>
   \<exists>kvs r'. generate_props props rng = (Inr kvs, r')"
proof (induction props arbitrary: rng)
  case Nil
  then show ?case by simp
next
  case (Cons kt props)
  obtain k t where kt: "kt = (k, t)" by (cases kt)
  from Cons.prems kt obtain v r1 where g: "generate t rng = (Inr v, r1)" by fastforce
  from Cons.prems have "\<forall>kt\<in>set props. \<forall>r. \<exists>v r'. generate (snd kt) r = (Inr v, r')" by simp
  from Cons.IH [OF this] obtain kvs r' where "generate_props props r1 = (Inr kvs, r')" by blast
  with g kt show ?case by simp
qed

lemma generate_struct:
  assumes "getProps c = Some props"
    and "name c \<noteq> ''DateFromStringISO''" and "name c \<noteq> ''Uuid''"
    and "name c \<noteq> ''CurrencyFromString''"
  shows "generate c rng =
           (case generate_props props rng of
              (Inl e, r2) \<Rightarrow> (Inl e, r2)
            | (Inr kvs, r2) \<Rightarrow> (Inr (JObj kvs), r2))"
  using assms by (cases c) (simp_all add: generate.simps)

text \<open>
  C4, amended. For a struct node (an interface, a partial, or an exact over one of
  them: the nodes \<open>getProps\<close> finds props for, unwrapping the exact kind) whose name
  is none of the three reserved names, \<open>generate\<close> goes through the props in order.
  Whenever it returns a value, the value is an object whose keys are exactly the
  field names, each bound to a value generated from that field's node, and it does
  return when generating every field's node always returns.
\<close>

theorem generate_struct_fields:
  assumes "getProps c = Some props"
    and "name c \<noteq> ''DateFromStringISO''" and "name c \<noteq> ''Uuid''"
    and "name c \<noteq> ''CurrencyFromString''"
  shows "generate c rng =
           (case generate_props props rng of
              (Inl e, r2) \<Rightarrow> (Inl e, r2)
            | (Inr kvs, r2) \<Rightarrow> (Inr (JObj kvs), r2))
         \<and> (\<forall>v r'. generate c rng = (Inr v, r') \<longrightarrow>
               (\<exists>kvs. v = JObj kvs \<and> map fst kvs = map fst props
                  \<and> list_all2 (\<lambda>kv kt. \<exists>r0 r1. generate (snd kt) r0 = (Inr (snd kv), r1))
                       kvs props))
         \<and> ((\<forall>kt\<in>set props. \<forall>r. \<exists>v r'. generate (snd kt) r = (Inr v, r')) \<longrightarrow>
               (\<exists>kvs r'. generate c rng = (Inr (JObj kvs), r') \<and> map fst kvs = map fst props))
         \<and> getProps (InterfaceType n ps) = Some ps
         \<and> getProps (PartialType n ps) = Some ps
         \<and> getProps (ExactType n (InterfaceType m ps)) = Some ps
         \<and> getProps (ExactType n (PartialType m ps)) = Some ps"
proof -
  note g = generate_struct [OF assms, of rng]
  have v: "\<exists>kvs. v = JObj kvs \<and> map fst kvs = map fst props
              \<and> list_all2 (\<lambda>kv kt. \<exists>r0 r1. generate (snd kt) r0 = (Inr (snd kv), r1)) kvs props"
    if r: "generate c rng = (Inr v, r')" for v r'
  proof -
    from r g obtain kvs where e: "generate_props props rng = (Inr kvs, r')" and "v = JObj kvs"
      by (auto split: prod.splits sum.splits)
    with generate_props_Inr [OF e] show ?thesis by simp
  qed
  have tot: "\<exists>kvs r'. generate c rng = (Inr (JObj kvs), r') \<and> map fst kvs = map fst props"
    if a: "\<forall>kt\<in>set props. \<forall>r. \<exists>v r'. generate (snd kt) r = (Inr v, r')"
  proof -
    from generate_props_returns [OF a] obtain kvs r' where
      e: "generate_props props rng = (Inr kvs, r')" by blast
    with generate_props_Inr [OF e] g show ?thesis by simp
  qed
  from g v tot show ?thesis by simp
qed

theorem generate_struct_fields_witness:
  "generate (ExactType ''{| a: boolean, b: number |}''
       (InterfaceType ''{ a: boolean, b: number }''
          [(''a'', BooleanType ''boolean''), (''b'', NumberType ''number'')])) [1, 100042, 5]
     = (Inr (JObj [(''a'', JBool True), (''b'', JNum (Finite 42))]), [5])"
  using generate_struct_fields [of
      "ExactType ''{| a: boolean, b: number |}''
         (InterfaceType ''{ a: boolean, b: number }''
            [(''a'', BooleanType ''boolean''), (''b'', NumberType ''number'')])"
      "[(''a'', BooleanType ''boolean''), (''b'', NumberType ''number'')]"
      "[1, 100042, 5]"]
  by (simp add: generate.simps faker_datatype_boolean_def faker_datatype_number_def
        faker_datatype_number_between_def)

text \<open>
  C4 as stated fails for a struct node that carries a reserved name: the named branch
  answers with a string, and no object is built.
\<close>

theorem generate_struct_reserved_name_counterexample:
  "generate (InterfaceType ''Uuid'' [(''a'', StringType ''string''), (''b'', NumberType ''number'')]) []
     = (Inr (JStr ''00000000-0000-4000-8000-000000000000''), [])"
  by (simp add: generate.simps faker_datatype_uuid_def RFC4122_TEMPLATE_def
        faker_datatype_number_between_def hex_digit_def)

subsection \<open>Refinements\<close>

lemma generate_RefinementType:
  assumes "n \<noteq> ''DateFromStringISO''" and "n \<noteq> ''Uuid''" and "n \<noteq> ''CurrencyFromString''"
  shows "generate (RefinementType n t predicate) rng =
           (case generate t rng of
              (Inl e, r1) \<Rightarrow> (Inl e, r1)
            | (Inr v, r1) \<Rightarrow> (call_filter v predicate, r1))"
  using assms by (simp add: generate.simps)

text \<open>
  C3 fails on the code. \<open>generate\<close> calls \<open>.filter(predicate)\<close> on the generated
  candidate itself. On a number (as for \<open>t.Int\<close>) that call throws a TypeError, so no
  value is returned. On an array it filters the elements, not the array: here the
  candidate \<open>[true, false]\<close> satisfies the predicate, and the value returned, \<open>[]\<close>,
  does not.
\<close>

theorem generate_refinement_breaks_predicate:
  "generate t_Int [5] = (Inl TypeError, [])
   \<and> generate NonEmptyBooleans [2251799813685248, 3, 2, 7] = (Inr (JArr []), [7])
   \<and> isNonEmptyArray (JArr [JBool True, JBool False])
   \<and> \<not> isNonEmptyArray (JArr [])"
proof -
  have i: "generate t_Int [5] = (Inl TypeError, [])"
    by (simp add: t_Int_def t_number_def generate.simps faker_datatype_number_def
          faker_datatype_number_between_def)
  have n: "generate NonEmptyBooleans [2251799813685248, 3, 2, 7] = (Inr (JArr []), [7])"
    unfolding NonEmptyBooleans_def
    by (subst generate_RefinementType) (simp_all add: generate_Array_boolean_two isNonEmptyArray_def)
  from i n show ?thesis by (simp add: isNonEmptyArray_def)
qed

text \<open>
  C1 fails on the code for refinement nodes, by the same call of \<open>.filter\<close>: for
  \<open>t.Int\<close> the generator throws before the decoder is reached, and for the non-empty
  array of booleans the decoder rejects the value generated.
\<close>

theorem generate_then_decode_refinement_fails:
  "generate_then_decode t_Int [5] = Inl TypeError
   \<and> generate_then_decode NonEmptyBooleans [2251799813685248, 3, 2, 7]
       = Inl (DecodeError [JArr []])"
proof -
  have i: "generate t_Int [5] = (Inl TypeError, [])"
    by (simp add: t_Int_def t_number_def generate.simps faker_datatype_number_def
          faker_datatype_number_between_def)
  have n: "generate NonEmptyBooleans [2251799813685248, 3, 2, 7] = (Inr (JArr []), [7])"
    unfolding NonEmptyBooleans_def
    by (subst generate_RefinementType) (simp_all add: generate_Array_boolean_two isNonEmptyArray_def)
  have d: "decode NonEmptyBooleans (JArr []) = Inl [JArr []]"
    by (simp add: decode_def NonEmptyBooleans_def isNonEmptyArray_def success_def failure_def)
  from i n d show ?thesis by (simp add: generate_then_decode_def)
qed

subsection \<open>The ISO-date codec\<close>

lemma digit_char_mem: "n < 10 \<Longrightarrow> ''0123456789'' ! n \<in> set ''0123456789''"
  by (rule nth_mem) simp

lemma decimal_digits_set: "set (decimal_digits n) \<subseteq> set ''0123456789''"
proof (induction n rule: decimal_digits.induct)
  case (1 n)
  show ?case
  proof (cases "n < 10")
    case True
    with digit_char_mem [of n] show ?thesis by (subst decimal_digits.simps) simp
  next
    case False
    have "n mod 10 < 10" by simp
    from digit_char_mem [OF this] "1.IH" [OF False] False show ?thesis
      by (subst decimal_digits.simps) simp
  qed
qed

lemma addLeadingZeros_set: "set (addLeadingZeros n w) \<subseteq> set ''0123456789''"
proof -
  have "set (replicate (w - length (decimal_digits n)) CHR ''0'') \<subseteq> set ''0123456789''"
    by (auto simp: set_replicate_conv_if)
  with decimal_digits_set [of n] show ?thesis
    unfolding addLeadingZeros_def set_append by blast
qed

lemma format_yyyy_MM_dd_shape:
  "\<exists>y m d. format_yyyy_MM_dd L (Date t)
       = Inr (addLeadingZeros y 4 @ ''-'' @ addLeadingZeros m 2 @ ''-'' @ addLeadingZeros d 2)"
proof -
  obtain sy m d where c: "civil_from_days ((t + zoneOffset L t) div msPerDay) = (sy, m, d)"
    by (cases "civil_from_days ((t + zoneOffset L t) div msPerDay)") auto
  show ?thesis
    unfolding format_yyyy_MM_dd_def date.case c prod.case Let_def by blast
qed

lemma format_yyyy_MM_dd_chars:
  assumes "format_yyyy_MM_dd L (Date t) = Inr e"
  shows "set e \<subseteq> set ''0123456789'' \<union> {CHR ''-''}"
proof -
  from format_yyyy_MM_dd_shape [of L t] assms obtain y m d where
    e: "e = addLeadingZeros y 4 @ ''-'' @ addLeadingZeros m 2 @ ''-'' @ addLeadingZeros d 2"
    by auto
  define D where "D = set ''0123456789''"
  have a: "set (addLeadingZeros k w) \<subseteq> D" for k w
    unfolding D_def by (rule addLeadingZeros_set)
  have "set e \<subseteq> D \<union> {CHR ''-''}"
    unfolding e using a [of y 4] a [of m 2] a [of d 2] by auto
  then show ?thesis unfolding D_def .
qed

lemma toISOString_has_time:
  assumes "toISOString (Date t) = Inr w"
  shows "CHR ''T'' \<in> set w"
  using assms by (auto simp: toISOString_def Let_def split: prod.splits)

lemma DateFromISOString_decode:
  "decode (DateFromISOString L) u =
     (case u of
        JStr s \<Rightarrow> if isValid (parseISO L s) then Inr (JDate (parseISO L s)) else Inl [JStr s]
      | _ \<Rightarrow> Inl [u])"
  by (cases u)
    (simp_all add: decode_def DateFromISOString_def DateFromISOString_validate_def t_string_def
       success_def failure_def Let_def)

lemma DateFromISOString_decode_valid:
  assumes "decode (DateFromISOString L) u = Inr a"
  shows "\<exists>t. a = JDate (Date t)"
proof -
  from assms obtain s where a: "a = JDate (parseISO L s)" and v: "isValid (parseISO L s)"
    unfolding DateFromISOString_decode by (cases u) (auto split: if_splits)
  from v obtain t where "parseISO L s = Date t" by (cases "parseISO L s") auto
  with a show ?thesis by simp
qed

lemma DateFromISOString_encode_Date:
  "\<exists>e. DateFromISOString_encode L (JDate (Date t)) = Inr (JStr e) \<and> set e \<subseteq> set ''0123456789'' \<union> {CHR ''-''}"
proof -
  from format_yyyy_MM_dd_shape [of L t] obtain e where e: "format_yyyy_MM_dd L (Date t) = Inr e"
    by blast
  with format_yyyy_MM_dd_chars [OF e] show ?thesis by (simp add: DateFromISOString_encode_def)
qed

text \<open>
  The calendar. \<open>YearFromDay\<close> gives the year that holds a day, the one with
  \<open>DayFromYear y \<le> day < DayFromYear (y + 1)\<close>; a year is as long as its months
  together; so \<open>civil_from_days\<close> gives a month from 1 to 12 and a day of that month,
  and the day number is found back from the three.
\<close>

lemma div_bounds:
  fixes x k :: int
  assumes "0 < k"
  shows "k * (x div k) \<le> x" and "x < k * (x div k) + k"
proof -
  have e: "x = k * (x div k) + x mod k" by simp
  have "0 \<le> x mod k" and "x mod k < k" using assms by simp_all
  with e show "k * (x div k) \<le> x" and "x < k * (x div k) + k" by linarith+
qed

lemma DayFromYear_bounds:
  "146097 * (y - 1970) - 606 \<le> 400 * DayFromYear y"
  "400 * DayFromYear y \<le> 146097 * (y - 1970) + 592"
proof -
  define a where "a = (y - 1969) div 4"
  define b where "b = (y - 1901) div 100"
  define c where "c = (y - 1601) div 400"
  have a: "4 * a \<le> y - 1969" "y - 1969 < 4 * a + 4"
    unfolding a_def by (rule div_bounds, simp)+
  have b: "100 * b \<le> y - 1901" "y - 1901 < 100 * b + 100"
    unfolding b_def by (rule div_bounds, simp)+
  have c: "400 * c \<le> y - 1601" "y - 1601 < 400 * c + 400"
    unfolding c_def by (rule div_bounds, simp)+
  have d: "DayFromYear y = 365 * (y - 1970) + a - b + c"
    unfolding DayFromYear_def a_def b_def c_def by simp
  from a b c show "146097 * (y - 1970) - 606 \<le> 400 * DayFromYear y"
    unfolding d by simp
  from a b c show "400 * DayFromYear y \<le> 146097 * (y - 1970) + 592"
    unfolding d by simp
qed

lemma YearFromDay_lower: "DayFromYear (YearFromDay d) \<le> d"
proof -
  define q where "q = (400 * d) div 146097"
  have q: "146097 * q \<le> 400 * d"
    unfolding q_def using div_bounds(1) [of 146097 "400 * d"] by simp
  have "DayFromYear (1970 + q - 1) \<le> d"
    using DayFromYear_bounds(2) [of "1970 + q - 1"] q by simp
  then show ?thesis unfolding YearFromDay_def Let_def q_def [symmetric] by simp
qed

lemma YearFromDay_upper: "d < DayFromYear (YearFromDay d + 1)"
proof -
  define q where "q = (400 * d) div 146097"
  have q: "400 * d < 146097 * (q + 1)"
    unfolding q_def using div_bounds(2) [of 146097 "400 * d"] by (simp add: algebra_simps)
  have "d < DayFromYear (1970 + q + 1 + 1)"
    using DayFromYear_bounds(1) [of "1970 + q + 1 + 1"] q by simp
  then show ?thesis unfolding YearFromDay_def Let_def q_def [symmetric] by (simp add: not_le)
qed

lemma div_succ:
  fixes x k :: int
  assumes "0 < k"
  shows "(x + 1) div k = x div k + (if (x + 1) mod k = 0 then 1 else 0)"
proof (cases "(x + 1) mod k = 0")
  case True
  have "x + 1 = k * ((x + 1) div k)" using True by (metis add.right_neutral mult_div_mod_eq)
  then have x: "x = k * ((x + 1) div k - 1) + (k - 1)" by (simp add: algebra_simps)
  have "x div k = (x + 1) div k - 1"
    using assms by (subst x) (simp add: div_pos_pos_trivial)
  with True show ?thesis by simp
next
  case False
  define r where "r = (x + 1) mod k"
  have "0 \<le> (x + 1) mod k" and "(x + 1) mod k < k" using assms by simp_all
  with False have r: "1 \<le> r" "r < k" unfolding r_def by simp_all
  have "x + 1 = k * ((x + 1) div k) + r" unfolding r_def by simp
  then have x: "x = k * ((x + 1) div k) + (r - 1)" by simp
  have "x div k = (x + 1) div k"
    using assms r by (subst x) (simp add: div_pos_pos_trivial)
  with False show ?thesis by simp
qed

lemma DayFromYear_step: "DayFromYear (y + 1) = DayFromYear y + DaysInYear y"
proof -
  have "(y - 1968) mod 4 = (y + 4 * (- 492)) mod 4" by simp
  also have "\<dots> = y mod 4" by (rule mod_mult_self2)
  finally have a4: "(y - 1969 + 1) mod 4 = y mod 4" by simp
  have "(y - 1900) mod 100 = (y + 100 * (- 19)) mod 100" by simp
  also have "\<dots> = y mod 100" by (rule mod_mult_self2)
  finally have b100: "(y - 1901 + 1) mod 100 = y mod 100" by simp
  have "(y - 1600) mod 400 = (y + 400 * (- 4)) mod 400" by simp
  also have "\<dots> = y mod 400" by (rule mod_mult_self2)
  finally have c400: "(y - 1601 + 1) mod 400 = y mod 400" by simp
  have a: "(y + 1 - 1969) div 4 = (y - 1969) div 4 + (if y mod 4 = 0 then 1 else 0)"
    using div_succ [of 4 "y - 1969"] a4 by (simp add: algebra_simps)
  have b: "(y + 1 - 1901) div 100 = (y - 1901) div 100 + (if y mod 100 = 0 then 1 else 0)"
    using div_succ [of 100 "y - 1901"] b100 by (simp add: algebra_simps)
  have c: "(y + 1 - 1601) div 400 = (y - 1601) div 400 + (if y mod 400 = 0 then 1 else 0)"
    using div_succ [of 400 "y - 1601"] c400 by (simp add: algebra_simps)
  have "(100::int) dvd 400" and "(4::int) dvd 100" by simp_all
  then have m: "y mod 400 = 0 \<longrightarrow> y mod 100 = 0" "y mod 100 = 0 \<longrightarrow> y mod 4 = 0"
    unfolding mod_eq_0_iff_dvd by (blast intro: dvd_trans)+
  show ?thesis
    unfolding DayFromYear_def DaysInYear_def a b c using m by auto
qed

lemma DaysInYear_pos: "0 \<le> DaysInYear y"
  by (simp add: DaysInYear_def)

lemma DayFromYear_mono:
  assumes "y \<le> y'"
  shows "DayFromYear y \<le> DayFromYear y'"
proof -
  have "DayFromYear y \<le> DayFromYear (y + k)" if "0 \<le> k" for k
    using that
  proof (induction k rule: int_ge_induct)
    case base
    show ?case by simp
  next
    case (step i)
    from DayFromYear_step [of "y + i"] DaysInYear_pos [of "y + i"] step.IH
    show ?case by (simp add: add.assoc)
  qed
  from this [of "y' - y"] assms show ?thesis by simp
qed

lemma YearFromDay_range:
  assumes "DayFromYear a \<le> z" and "z < DayFromYear b"
  shows "a \<le> YearFromDay z \<and> YearFromDay z < b"
proof -
  have "a \<le> YearFromDay z"
  proof (rule ccontr)
    assume "\<not> a \<le> YearFromDay z"
    then have "YearFromDay z + 1 \<le> a" by simp
    from DayFromYear_mono [OF this] YearFromDay_upper [of z] assms(1) show False by simp
  qed
  moreover have "YearFromDay z < b"
  proof (rule ccontr)
    assume "\<not> YearFromDay z < b"
    then have "b \<le> YearFromDay z" by simp
    from DayFromYear_mono [OF this] YearFromDay_lower [of z] assms(2) show False by simp
  qed
  ultimately show ?thesis ..
qed

lemma month_and_date_spec:
  assumes "0 \<le> n" and "n < sum_list ls" and "month_and_date ls n m0 = (m, d)"
  shows "m0 \<le> m \<and> nat (m - m0) < length ls \<and> 1 \<le> d \<and> d \<le> ls ! nat (m - m0)
         \<and> n = sum_list (take (nat (m - m0)) ls) + (d - 1)"
  using assms
proof (induction ls arbitrary: n m0)
  case Nil
  then show ?case by simp
next
  case (Cons l ls)
  show ?case
  proof (cases "n < l")
    case True
    with Cons.prems show ?thesis by auto
  next
    case False
    with Cons.prems have r: "month_and_date ls (n - l) (m0 + 1) = (m, d)"
      and n0: "0 \<le> n - l" and n1: "n - l < sum_list ls" by simp_all
    from Cons.IH [OF n0 n1 r] have
      i: "m0 + 1 \<le> m" "nat (m - (m0 + 1)) < length ls" "1 \<le> d"
         "d \<le> ls ! nat (m - (m0 + 1))"
         "n - l = sum_list (take (nat (m - (m0 + 1))) ls) + (d - 1)"
      by simp_all
    from i(1) have k: "nat (m - m0) = Suc (nat (m - (m0 + 1)))" by simp
    from i show ?thesis unfolding k by simp
  qed
qed

lemma sum_list_month_lengths: "sum_list (month_lengths y) = DaysInYear y"
  by (simp add: month_lengths_def DaysInYear_def)

lemma civil_from_days_correct:
  assumes "civil_from_days z = (y, m, d)"
  shows "YearFromDay z = y \<and> 1 \<le> m \<and> m \<le> 12 \<and> 1 \<le> d \<and> d \<le> month_lengths y ! nat (m - 1)
         \<and> DayFromYear y + sum_list (take (nat (m - 1)) (month_lengths y)) + (d - 1) = z"
proof -
  define n where "n = z - DayFromYear (YearFromDay z)"
  from assms have y: "y = YearFromDay z"
    and md: "month_and_date (month_lengths y) n 1 = (m, d)"
    unfolding civil_from_days_def Let_def n_def by (auto split: prod.splits)
  have n0: "0 \<le> n" unfolding n_def using YearFromDay_lower [of z] by simp
  have n1: "n < sum_list (month_lengths y)"
    unfolding n_def y sum_list_month_lengths
    using YearFromDay_upper [of z] DayFromYear_step [of "YearFromDay z"] by simp
  from month_and_date_spec [OF n0 n1 md] have
    i: "1 \<le> m" "nat (m - 1) < length (month_lengths y)" "1 \<le> d"
       "d \<le> month_lengths y ! nat (m - 1)"
       "n = sum_list (take (nat (m - 1)) (month_lengths y)) + (d - 1)"
    by simp_all
  from i(1,2) have "m \<le> 12" by (simp add: month_lengths_def)
  with y i show ?thesis unfolding n_def by simp
qed

text \<open>
  Digits. \<open>decimal_digits\<close> writes a number in base ten, and \<open>addLeadingZeros\<close>
  fills it to the target length, which a number that fits is not longer than.
\<close>

lemma month_lengths_le:
  assumes "k < 12"
  shows "month_lengths y ! k \<le> 31"
proof -
  have "\<forall>l\<in>set (month_lengths y). l \<le> 31" by (simp add: month_lengths_def)
  moreover have "month_lengths y ! k \<in> set (month_lengths y)"
    using assms by (intro nth_mem) (simp add: month_lengths_def)
  ultimately show ?thesis by blast
qed

lemma decimal_digits_length:
  "n < 10 ^ Suc k \<Longrightarrow> length (decimal_digits n) \<le> Suc k"
proof (induction k arbitrary: n)
  case 0
  then show ?case by (subst decimal_digits.simps) simp
next
  case (Suc k)
  show ?case
  proof (cases "n < 10")
    case True
    then show ?thesis by (subst decimal_digits.simps) simp
  next
    case False
    from Suc.prems have "n div 10 < 10 ^ Suc k" by (simp add: less_mult_imp_div_less)
    from Suc.IH [OF this] False show ?thesis by (subst decimal_digits.simps) simp
  qed
qed

lemma addLeadingZeros_length:
  assumes "n < 10 ^ k" and "0 < k"
  shows "length (addLeadingZeros n k) = k"
proof -
  from assms(2) obtain j where k: "k = Suc j" by (cases k) auto
  from decimal_digits_length [of n j] assms(1) show ?thesis
    unfolding k by (simp add: addLeadingZeros_def)
qed

lemma decimal_digits_value:
  "\<exists>ds. decimal_digits n = map (\<lambda>k. ''0123456789'' ! k) ds \<and> ds \<noteq> [] \<and> (\<forall>k\<in>set ds. k < 10)
        \<and> foldl (\<lambda>a k. 10 * a + k) 0 ds = n"
proof (induction n rule: decimal_digits.induct)
  case (1 n)
  show ?case
  proof (cases "n < 10")
    case True
    have "decimal_digits n = map (\<lambda>k. ''0123456789'' ! k) [n]"
      using True by (subst decimal_digits.simps) simp
    with True show ?thesis by (intro exI [of _ "[n]"]) simp
  next
    case False
    from "1.IH" [OF False] obtain ds where
      d: "decimal_digits (n div 10) = map (\<lambda>k. ''0123456789'' ! k) ds" "ds \<noteq> []"
         "\<forall>k\<in>set ds. k < 10" "foldl (\<lambda>a k. 10 * a + k) 0 ds = n div 10"
      by blast
    have "decimal_digits n = map (\<lambda>k. ''0123456789'' ! k) (ds @ [n mod 10])"
      using False d(1) by (subst decimal_digits.simps) simp
    with d show ?thesis by (intro exI [of _ "ds @ [n mod 10]"]) simp
  qed
qed

text \<open>
  A generated date lies in the years 1969 to 9999, where the ISO string is 24
  characters long: the date on ten, a \<open>T\<close>, and the time of day.
\<close>

lemma faker_date_past_range:
  assumes "faker_date_past rng = (Date t, r)"
  shows "- 31536000000 \<le> t \<and> t < 253402300800000"
proof -
  obtain now r1 where d: "draw rng = (now, r1)" by (cases "draw rng")
  obtain ago r2 where a: "faker_datatype_number_between 1000 31536000000 r1 = (ago, r2)"
    by (cases "faker_datatype_number_between 1000 31536000000 r1")
  from faker_datatype_number_between_le [OF _ a] have b: "1000 \<le> ago" "ago \<le> 31536000000"
    by simp_all
  have m: "now mod 253402300800000 < 253402300800000" by simp
  from assms d a have t: "t = int (now mod 253402300800000) - int ago"
    by (simp add: faker_date_past_def)
  from b m show ?thesis unfolding t by linarith
qed

lemma generated_year_range:
  assumes "- 31536000000 \<le> t" and "t < 253402300800000"
  shows "1969 \<le> YearFromDay (t div msPerDay) \<and> YearFromDay (t div msPerDay) \<le> 9999"
proof -
  have a: "DayFromYear 1969 = - 365" by (simp add: DayFromYear_def)
  have b: "DayFromYear 10000 = 2932897" by (simp add: DayFromYear_def)
  have "(- 31536000000) div msPerDay \<le> t div msPerDay"
    using assms(1) by (intro zdiv_mono1) (simp_all add: msPerDay_def)
  then have lo: "DayFromYear 1969 \<le> t div msPerDay" unfolding a by (simp add: msPerDay_def)
  from assms(2) have "t \<le> 253402300799999" by simp
  then have "t div msPerDay \<le> 253402300799999 div msPerDay"
    by (intro zdiv_mono1) (simp_all add: msPerDay_def)
  then have hi: "t div msPerDay < DayFromYear 10000" unfolding b by (simp add: msPerDay_def)
  from YearFromDay_range [OF lo hi] show ?thesis by simp
qed

lemma date_portion_length:
  assumes c: "civil_from_days z = (y, m, dd)" and y: "0 \<le> y" "y \<le> 9999"
  shows "length (addLeadingZeros (nat y) 4) = 4"
    and "length (addLeadingZeros (nat m) 2) = 2"
    and "length (addLeadingZeros (nat dd) 2) = 2"
proof -
  from civil_from_days_correct [OF c] have
    m: "1 \<le> m" "m \<le> 12" and d: "1 \<le> dd" "dd \<le> month_lengths y ! nat (m - 1)" by simp_all
  from m have "nat (m - 1) < 12" by simp
  from month_lengths_le [OF this, of y] d have d31: "dd \<le> 31" by simp
  from y have "nat y < 10 ^ 4" by simp
  from addLeadingZeros_length [OF this] show "length (addLeadingZeros (nat y) 4) = 4" by simp
  from m have "nat m < 10 ^ 2" by simp
  from addLeadingZeros_length [OF this] show "length (addLeadingZeros (nat m) 2) = 2" by simp
  from d31 have "nat dd < 10 ^ 2" by simp
  from addLeadingZeros_length [OF this] show "length (addLeadingZeros (nat dd) 2) = 2" by simp
qed

lemma time_of_day_length:
  fixes t :: int
  defines "ms \<equiv> t mod msPerDay"
  shows "length (addLeadingZeros (nat (ms div 3600000)) 2) = 2"
    and "length (addLeadingZeros (nat (ms div 60000 mod 60)) 2) = 2"
    and "length (addLeadingZeros (nat (ms div 1000 mod 60)) 2) = 2"
    and "length (addLeadingZeros (nat (ms mod 1000)) 3) = 3"
proof -
  have r: "0 \<le> ms" "ms < 86400000" unfolding ms_def msPerDay_def by simp_all
  from r(2) have "ms \<le> 86399999" by simp
  then have "ms div 3600000 \<le> 86399999 div 3600000" by (intro zdiv_mono1) simp_all
  then have "nat (ms div 3600000) < 10 ^ 2" by simp
  from addLeadingZeros_length [OF this]
  show "length (addLeadingZeros (nat (ms div 3600000)) 2) = 2" by simp
  have "ms div 60000 mod 60 < 60" by simp
  then have "nat (ms div 60000 mod 60) < 10 ^ 2" by simp
  from addLeadingZeros_length [OF this]
  show "length (addLeadingZeros (nat (ms div 60000 mod 60)) 2) = 2" by simp
  have "ms div 1000 mod 60 < 60" by simp
  then have "nat (ms div 1000 mod 60) < 10 ^ 2" by simp
  from addLeadingZeros_length [OF this]
  show "length (addLeadingZeros (nat (ms div 1000 mod 60)) 2) = 2" by simp
  have "ms mod 1000 < 1000" by simp
  then have "nat (ms mod 1000) < 10 ^ 3" by simp
  from addLeadingZeros_length [OF this]
  show "length (addLeadingZeros (nat (ms mod 1000)) 3) = 3" by simp
qed

lemma format_yyyy_MM_dd_civil:
  assumes "civil_from_days ((t + zoneOffset L t) div msPerDay) = (y, m, dd)"
  shows "format_yyyy_MM_dd L (Date t)
           = Inr (addLeadingZeros (nat (if 0 < y then y else 1 - y)) 4 @ ''-''
                  @ addLeadingZeros (nat m) 2 @ ''-'' @ addLeadingZeros (nat dd) 2)"
  using assms by (simp add: format_yyyy_MM_dd_def)

lemma toISOString_civil:
  assumes "civil_from_days (t div msPerDay) = (y, m, dd)" and "0 \<le> y" and "y \<le> 9999"
  shows "toISOString (Date t)
           = Inr ((addLeadingZeros (nat y) 4 @ ''-'' @ addLeadingZeros (nat m) 2 @ ''-''
                   @ addLeadingZeros (nat dd) 2)
                  @ ''T'' @ addLeadingZeros (nat (t mod msPerDay div 3600000)) 2 @ '':''
                  @ addLeadingZeros (nat (t mod msPerDay div 60000 mod 60)) 2 @ '':''
                  @ addLeadingZeros (nat (t mod msPerDay div 1000 mod 60)) 2 @ ''.''
                  @ addLeadingZeros (nat (t mod msPerDay mod 1000)) 3 @ ''Z'')"
  using assms by (simp add: toISOString_def iso_year_def Let_def)

lemma time_text_length:
  assumes "length a = 2" and "length b = 2" and "length c = 2" and "length d = 3"
  shows "length (a @ '':'' @ b @ '':'' @ c @ ''.'' @ d @ ''Z'') = 13"
  using assms by simp

lemma date_text_length:
  assumes "length a = 4" and "length b = 2" and "length c = 2"
  shows "length (a @ ''-'' @ b @ ''-'' @ c) = 10"
  using assms by simp

lemma text_layout:
  assumes "length e = 10" and "length u = 13"
  shows "length (e @ ''T'' @ u) = 24 \<and> (e @ ''T'' @ u) ! 10 = CHR ''T'' \<and> take 10 (e @ ''T'' @ u) = e"
  using assms by (simp add: nth_append)

lemma toISOString_layout:
  assumes c: "civil_from_days (t div msPerDay) = (y, m, dd)" and y: "0 \<le> y" "y \<le> 9999"
    and w: "toISOString (Date t) = Inr w"
  shows "length w = 24 \<and> w ! 10 = CHR ''T''
         \<and> take 10 w = addLeadingZeros (nat y) 4 @ ''-'' @ addLeadingZeros (nat m) 2 @ ''-''
                         @ addLeadingZeros (nat dd) 2"
proof -
  define e where "e = addLeadingZeros (nat y) 4 @ ''-'' @ addLeadingZeros (nat m) 2 @ ''-''
                         @ addLeadingZeros (nat dd) 2"
  define u where "u = addLeadingZeros (nat (t mod msPerDay div 3600000)) 2 @ '':''
                  @ addLeadingZeros (nat (t mod msPerDay div 60000 mod 60)) 2 @ '':''
                  @ addLeadingZeros (nat (t mod msPerDay div 1000 mod 60)) 2 @ ''.''
                  @ addLeadingZeros (nat (t mod msPerDay mod 1000)) 3 @ ''Z''"
  have le: "length e = 10" unfolding e_def by (rule date_text_length [OF date_portion_length [OF c y]])
  have lu: "length u = 13" unfolding u_def by (rule time_text_length [OF time_of_day_length])
  have "toISOString (Date t) = Inr (e @ ''T'' @ u)"
    unfolding e_def u_def by (rule toISOString_civil [OF c y])
  with w have w: "w = e @ ''T'' @ u" by simp
  from text_layout [OF le lu] show ?thesis unfolding w e_def [symmetric] .
qed

lemma DateFromISOString_encode_civil:
  assumes "civil_from_days ((t + zoneOffset L t) div msPerDay) = (y, m, dd)"
  shows "DateFromISOString_encode L (JDate (Date t))
           = Inr (JStr (addLeadingZeros (nat (if 0 < y then y else 1 - y)) 4 @ ''-''
                        @ addLeadingZeros (nat m) 2 @ ''-'' @ addLeadingZeros (nat dd) 2))"
  using format_yyyy_MM_dd_civil [OF assms] by (simp add: DateFromISOString_encode_def)


text \<open>
  Two timestamps evaluated: noon of a leap day, and the epoch, whose local day in Sao
  Paulo is the day before.
\<close>

lemma civil_from_days_example: "civil_from_days 19782 = (2024, 2, 29)"
  by (simp add: civil_from_days_def YearFromDay_def DayFromYear_def month_lengths_def
        DaysInYear_def)

lemma civil_from_days_eve: "civil_from_days (- 1) = (1969, 12, 31)"
  by (simp add: civil_from_days_def YearFromDay_def DayFromYear_def month_lengths_def
        DaysInYear_def)

lemma faker_date_past_example:
  "faker_date_past [1709210097789, 0] = (Date 1709210096789, [])"
  by (simp add: faker_date_past_def faker_datatype_number_between_def)

lemma decimal_digits_lt10: "n < 10 \<Longrightarrow> decimal_digits n = [''0123456789'' ! n]"
  by (subst decimal_digits.simps) simp

lemma decimal_digits_ge10:
  "\<not> n < 10 \<Longrightarrow> decimal_digits n = decimal_digits (n div 10) @ [''0123456789'' ! (n mod 10)]"
  by (subst decimal_digits.simps) simp

lemma toISOString_example:
  "toISOString (Date 1709210096789) = Inr ''2024-02-29T12:34:56.789Z''"
proof -
  have d: "(1709210096789::int) div msPerDay = 19782" by (simp add: msPerDay_def)
  have m: "(1709210096789::int) mod msPerDay = 45296789" by (simp add: msPerDay_def)
  show ?thesis
    by (simp add: toISOString_def d m civil_from_days_example iso_year_def addLeadingZeros_def
          decimal_digits_lt10 decimal_digits_ge10)
qed

lemma format_example:
  "format_yyyy_MM_dd saoPaulo (Date 1709210096789) = Inr ''2024-02-29''"
proof -
  have d: "(1709199296789::int) div msPerDay = 19782" by (simp add: msPerDay_def)
  show ?thesis
    by (simp add: format_yyyy_MM_dd_def saoPaulo_def d civil_from_days_example
          addLeadingZeros_def decimal_digits_lt10 decimal_digits_ge10)
qed

lemma toISOString_epoch: "toISOString (Date 0) = Inr ''1970-01-01T00:00:00.000Z''"
proof -
  have c: "civil_from_days 0 = (1970, 1, 1)"
    by (simp add: civil_from_days_def YearFromDay_def DayFromYear_def month_lengths_def
          DaysInYear_def)
  have r: "replicate 2 CHR ''0'' = ''00''" by (simp add: numeral_2_eq_2)
  show ?thesis
    by (simp add: toISOString_def msPerDay_def c iso_year_def addLeadingZeros_def
          decimal_digits_lt10 decimal_digits_ge10 r)
qed

lemma format_epoch: "format_yyyy_MM_dd saoPaulo (Date 0) = Inr ''1969-12-31''"
proof -
  have d: "(- 10800000::int) div msPerDay = - 1" by (simp add: msPerDay_def)
  show ?thesis
    by (simp add: format_yyyy_MM_dd_def saoPaulo_def d civil_from_days_eve
          addLeadingZeros_def decimal_digits_lt10 decimal_digits_ge10)
qed


lemma toISOString_local_example:
  "toISOString (Date 1709199296789) = Inr ''2024-02-29T09:34:56.789Z''"
proof -
  have d: "(1709199296789::int) div msPerDay = 19782" by (simp add: msPerDay_def)
  have m: "(1709199296789::int) mod msPerDay = 34496789" by (simp add: msPerDay_def)
  show ?thesis
    by (simp add: toISOString_def d m civil_from_days_example iso_year_def addLeadingZeros_def
          decimal_digits_lt10 decimal_digits_ge10)
qed

lemma format_utc_example:
  "format_yyyy_MM_dd utc (Date 1709210096789) = Inr ''2024-02-29''"
proof -
  have d: "(1709210096789::int) div msPerDay = 19782" by (simp add: msPerDay_def)
  show ?thesis
    by (simp add: format_yyyy_MM_dd_def utc_def d civil_from_days_example
          addLeadingZeros_def decimal_digits_lt10 decimal_digits_ge10)
qed

text \<open>
  C6. Decoding a string with the ISO-date codec fails exactly when \<open>parseISO\<close> gives
  no valid date for it, and succeeds with the parsed date otherwise. Encoding formats
  the timestamp with \<open>yyyy-MM-dd\<close>: for every timestamp \<open>t\<close> the result is the year,
  the month and the day of the month of the local calendar day that holds \<open>t\<close> (the
  day number is the days before the year, plus the lengths of the months before the
  month, plus the day of the month less one), the year on four digits and the others
  on two, with hyphens between; for a year from 1 to 9999 that is the first ten
  characters of the ISO string of the local time. Every wire string that \<open>generate\<close>
  makes for a date node is the ISO string of the generated date: 24 characters with
  a \<open>T\<close> and the time of day after the first ten. Encoding what the decoder returns
  for it gives a string of digits and hyphens only, which is not the wire string; when
  the decoder reads back the generated timestamp and local time is UTC there, it is
  the first ten characters of the wire string, its date portion.
\<close>

theorem date_wire_domain_asymmetry:
  "((\<exists>errors. decode (DateFromISOString L) (JStr s) = Inl errors) \<longleftrightarrow> \<not> isValid (parseISO L s))
   \<and> (isValid (parseISO L s) \<longrightarrow>
        decode (DateFromISOString L) (JStr s) = Inr (JDate (parseISO L s)))
   \<and> DateFromISOString_encode L (JDate d)
        = (case format_yyyy_MM_dd L d of Inl e \<Rightarrow> Inl e | Inr str \<Rightarrow> Inr (JStr str))
   \<and> (\<exists>y m dd.
         civil_from_days ((t + zoneOffset L t) div msPerDay) = (y, m, dd)
         \<and> 1 \<le> m \<and> m \<le> 12 \<and> 1 \<le> dd \<and> dd \<le> month_lengths y ! nat (m - 1)
         \<and> DayFromYear y + sum_list (take (nat (m - 1)) (month_lengths y)) + (dd - 1)
             = (t + zoneOffset L t) div msPerDay
         \<and> DateFromISOString_encode L (JDate (Date t))
             = Inr (JStr (addLeadingZeros (nat (if 0 < y then y else 1 - y)) 4 @ ''-''
                          @ addLeadingZeros (nat m) 2 @ ''-'' @ addLeadingZeros (nat dd) 2))
         \<and> (1 \<le> y \<and> y \<le> 9999 \<longrightarrow>
              (\<exists>iso. toISOString (Date (t + zoneOffset L t)) = Inr iso
                 \<and> DateFromISOString_encode L (JDate (Date t)) = Inr (JStr (take 10 iso)))))
   \<and> (\<exists>t0 w r'. faker_date_past rng = (Date t0, r') \<and> toISOString (Date t0) = Inr w
        \<and> generate (DateFromISOString L) rng = (Inr (JStr w), r')
        \<and> length w = 24 \<and> w ! 10 = CHR ''T'' \<and> CHR ''T'' \<in> set w
        \<and> (\<forall>a. decode (DateFromISOString L) (JStr w) = Inr a \<longrightarrow>
              (\<exists>t1 e. a = JDate (Date t1) \<and> parseISO L w = Date t1
                 \<and> DateFromISOString_encode L a = Inr (JStr e)
                 \<and> set e \<subseteq> set ''0123456789'' \<union> {CHR ''-''} \<and> e \<noteq> w
                 \<and> (t1 = t0 \<and> zoneOffset L t0 = 0 \<longrightarrow> e = take 10 w))))"
proof (intro conjI)
  show "(\<exists>errors. decode (DateFromISOString L) (JStr s) = Inl errors) \<longleftrightarrow> \<not> isValid (parseISO L s)"
    by (simp add: DateFromISOString_decode)
  show "isValid (parseISO L s) \<longrightarrow>
        decode (DateFromISOString L) (JStr s) = Inr (JDate (parseISO L s))"
    by (simp add: DateFromISOString_decode)
  show "DateFromISOString_encode L (JDate d)
        = (case format_yyyy_MM_dd L d of Inl e \<Rightarrow> Inl e | Inr str \<Rightarrow> Inr (JStr str))"
    by (simp add: DateFromISOString_encode_def)
  show "\<exists>y m dd.
         civil_from_days ((t + zoneOffset L t) div msPerDay) = (y, m, dd)
         \<and> 1 \<le> m \<and> m \<le> 12 \<and> 1 \<le> dd \<and> dd \<le> month_lengths y ! nat (m - 1)
         \<and> DayFromYear y + sum_list (take (nat (m - 1)) (month_lengths y)) + (dd - 1)
             = (t + zoneOffset L t) div msPerDay
         \<and> DateFromISOString_encode L (JDate (Date t))
             = Inr (JStr (addLeadingZeros (nat (if 0 < y then y else 1 - y)) 4 @ ''-''
                          @ addLeadingZeros (nat m) 2 @ ''-'' @ addLeadingZeros (nat dd) 2))
         \<and> (1 \<le> y \<and> y \<le> 9999 \<longrightarrow>
              (\<exists>iso. toISOString (Date (t + zoneOffset L t)) = Inr iso
                 \<and> DateFromISOString_encode L (JDate (Date t)) = Inr (JStr (take 10 iso))))"
  proof -
    obtain y m dd where c: "civil_from_days ((t + zoneOffset L t) div msPerDay) = (y, m, dd)"
      by (cases "civil_from_days ((t + zoneOffset L t) div msPerDay)") auto
    note k = civil_from_days_correct [OF c]
    note e = DateFromISOString_encode_civil [OF c]
    have p: "\<exists>iso. toISOString (Date (t + zoneOffset L t)) = Inr iso
                 \<and> DateFromISOString_encode L (JDate (Date t)) = Inr (JStr (take 10 iso))"
      if y: "1 \<le> y \<and> y \<le> 9999"
    proof -
      obtain iso where i: "toISOString (Date (t + zoneOffset L t)) = Inr iso"
        using toISOString_Date by blast
      from y have y0: "0 \<le> y" and y1: "y \<le> 9999" by simp_all
      from toISOString_layout [OF c y0 y1 i] y e i show ?thesis by simp
    qed
    from c k e p show ?thesis by blast
  qed
  show "\<exists>t0 w r'. faker_date_past rng = (Date t0, r') \<and> toISOString (Date t0) = Inr w
        \<and> generate (DateFromISOString L) rng = (Inr (JStr w), r')
        \<and> length w = 24 \<and> w ! 10 = CHR ''T'' \<and> CHR ''T'' \<in> set w
        \<and> (\<forall>a. decode (DateFromISOString L) (JStr w) = Inr a \<longrightarrow>
              (\<exists>t1 e. a = JDate (Date t1) \<and> parseISO L w = Date t1
                 \<and> DateFromISOString_encode L a = Inr (JStr e)
                 \<and> set e \<subseteq> set ''0123456789'' \<union> {CHR ''-''} \<and> e \<noteq> w
                 \<and> (t1 = t0 \<and> zoneOffset L t0 = 0 \<longrightarrow> e = take 10 w)))"
  proof -
    obtain t0 r where p: "faker_date_past rng = (Date t0, r)"
      using faker_date_past_valid by blast
    obtain w where w: "toISOString (Date t0) = Inr w"
      using toISOString_Date by blast
    have g: "generate (DateFromISOString L) rng = (Inr (JStr w), r)"
      using p w by (simp add: generate.simps DateFromISOString_def)
    have T: "CHR ''T'' \<in> set w" using w by (rule toISOString_has_time)
    obtain y m dd where c: "civil_from_days (t0 div msPerDay) = (y, m, dd)"
      by (cases "civil_from_days (t0 div msPerDay)") auto
    from faker_date_past_range [OF p] have "- 31536000000 \<le> t0" and "t0 < 253402300800000"
      by simp_all
    from generated_year_range [OF this] civil_from_days_correct [OF c]
    have y: "1969 \<le> y" "y \<le> 9999" by simp_all
    then have y0: "0 \<le> y" by simp
    note l = toISOString_layout [OF c y0 y(2) w]
    have "\<exists>t1 e. a = JDate (Date t1) \<and> parseISO L w = Date t1
                 \<and> DateFromISOString_encode L a = Inr (JStr e)
                 \<and> set e \<subseteq> set ''0123456789'' \<union> {CHR ''-''} \<and> e \<noteq> w
                 \<and> (t1 = t0 \<and> zoneOffset L t0 = 0 \<longrightarrow> e = take 10 w)"
      if d: "decode (DateFromISOString L) (JStr w) = Inr a" for a
    proof -
      from d obtain t1 where a: "a = JDate (Date t1)" and q: "parseISO L w = Date t1"
        unfolding DateFromISOString_decode
        by (cases "parseISO L w") (auto split: if_splits)
      from DateFromISOString_encode_Date [of L t1] obtain e where
        e: "DateFromISOString_encode L (JDate (Date t1)) = Inr (JStr e)" and
        s: "set e \<subseteq> set ''0123456789'' \<union> {CHR ''-''}" by blast
      have "CHR ''T'' \<notin> set ''0123456789'' \<union> {CHR ''-''}" by simp
      with s have "CHR ''T'' \<notin> set e" by blast
      with T have n: "e \<noteq> w" by auto
      have "e = take 10 w" if z: "t1 = t0 \<and> zoneOffset L t0 = 0"
      proof -
        from z c have "civil_from_days ((t1 + zoneOffset L t1) div msPerDay) = (y, m, dd)"
          by simp
        from DateFromISOString_encode_civil [OF this] e y l show ?thesis by simp
      qed
      with a q e s n show ?thesis by blast
    qed
    with p w g T l show ?thesis by blast
  qed
qed


theorem date_wire_domain_asymmetry_witness:
  "generate (DateFromISOString saoPaulo) [1709210097789, 0]
     = (Inr (JStr ''2024-02-29T12:34:56.789Z''), [])
   \<and> decode (DateFromISOString saoPaulo) (JStr ''2024-02-29T12:34:56.789Z'')
     = Inr (JDate (Date 1709210096789))
   \<and> civil_from_days ((1709210096789 + zoneOffset saoPaulo 1709210096789) div msPerDay)
     = (2024, 2, 29)
   \<and> toISOString (Date (1709210096789 + zoneOffset saoPaulo 1709210096789))
     = Inr ''2024-02-29T09:34:56.789Z''
   \<and> DateFromISOString_encode saoPaulo (JDate (Date 1709210096789)) = Inr (JStr ''2024-02-29'')
   \<and> toISOString (Date 0) = Inr ''1970-01-01T00:00:00.000Z''
   \<and> civil_from_days ((0 + zoneOffset saoPaulo 0) div msPerDay) = (1969, 12, 31)
   \<and> DateFromISOString_encode saoPaulo (JDate (Date 0)) = Inr (JStr ''1969-12-31'')
   \<and> decode (DateFromISOString saoPaulo) (JStr ''29/02/2024'') = Inl [JStr ''29/02/2024'']
   \<and> generate (DateFromISOString utc) [1709210097789, 0]
     = (Inr (JStr ''2024-02-29T12:34:56.789Z''), [])
   \<and> decode (DateFromISOString utc) (JStr ''2024-02-29T12:34:56.789Z'')
     = Inr (JDate (Date 1709210096789))
   \<and> zoneOffset utc 1709210096789 = 0
   \<and> DateFromISOString_encode utc (JDate (Date 1709210096789))
     = Inr (JStr (take 10 ''2024-02-29T12:34:56.789Z''))"
proof -
  have g: "generate (DateFromISOString L) [1709210097789, 0]
     = (Inr (JStr ''2024-02-29T12:34:56.789Z''), [])" for L
    by (subst generate.simps)
      (simp add: DateFromISOString_def faker_date_past_example toISOString_example)
  have p: "decode (DateFromISOString saoPaulo) (JStr ''2024-02-29T12:34:56.789Z'')
     = Inr (JDate (Date 1709210096789))"
    by (simp add: DateFromISOString_decode saoPaulo_def)
  have pu: "decode (DateFromISOString utc) (JStr ''2024-02-29T12:34:56.789Z'')
     = Inr (JDate (Date 1709210096789))"
    by (simp add: DateFromISOString_decode utc_def saoPaulo_def)
  have q: "decode (DateFromISOString saoPaulo) (JStr ''29/02/2024'') = Inl [JStr ''29/02/2024'']"
    by (simp add: DateFromISOString_decode saoPaulo_def)
  have z: "zoneOffset saoPaulo x = - 10800000" for x by (simp add: saoPaulo_def)
  have zu: "zoneOffset utc 1709210096789 = 0" by (simp add: utc_def)
  have l: "(1709210096789::int) + - 10800000 = 1709199296789" by simp
  have d: "(1709199296789::int) div msPerDay = 19782" by (simp add: msPerDay_def)
  have d0: "((0::int) + - 10800000) div msPerDay = - 1" by (simp add: msPerDay_def)
  have c: "civil_from_days ((1709210096789 + zoneOffset saoPaulo 1709210096789) div msPerDay)
     = (2024, 2, 29)"
    unfolding z l d by (rule civil_from_days_example)
  have c0: "civil_from_days ((0 + zoneOffset saoPaulo 0) div msPerDay) = (1969, 12, 31)"
    unfolding z d0 by (rule civil_from_days_eve)
  have i: "toISOString (Date (1709210096789 + zoneOffset saoPaulo 1709210096789))
     = Inr ''2024-02-29T09:34:56.789Z''"
    unfolding z l by (rule toISOString_local_example)
  have e: "DateFromISOString_encode saoPaulo (JDate (Date 1709210096789))
     = Inr (JStr ''2024-02-29'')"
    by (simp add: DateFromISOString_encode_def format_example)
  have e0: "DateFromISOString_encode saoPaulo (JDate (Date 0)) = Inr (JStr ''1969-12-31'')"
    by (simp add: DateFromISOString_encode_def format_epoch)
  have eu: "DateFromISOString_encode utc (JDate (Date 1709210096789))
     = Inr (JStr (take 10 ''2024-02-29T12:34:56.789Z''))"
    by (simp add: DateFromISOString_encode_def format_utc_example)
  from date_wire_domain_asymmetry
         [of saoPaulo "''2024-02-29T12:34:56.789Z''" "Date 1709210096789" 1709210096789
            "[1709210097789, 0]"]
       date_wire_domain_asymmetry [of saoPaulo "''29/02/2024''" "Date 0" 0 "[]"]
       date_wire_domain_asymmetry
         [of utc "''2024-02-29T12:34:56.789Z''" "Date 1709210096789" 1709210096789
            "[1709210097789, 0]"]
  show ?thesis
    by (simp only: g p pu q c c0 i e e0 eu zu toISOString_epoch simp_thms)
qed

subsection \<open>Encoding\<close>

lemma addLeadingZeros_length_ge: "w \<le> length (addLeadingZeros n w)"
  by (simp add: addLeadingZeros_def)

lemma toNumber_overflow: "toNumber (Decimal (Finite (10 ^ 400))) = PosInfinity"
  by simp

lemma toNumber_in_range: "toNumber (Decimal (Finite (5 / 2))) = Finite (5 / 2)"
  by simp


text \<open>
  C8, amended. \<open>encode\<close> of the Uuid codec returns its argument, \<open>encode\<close> of the
  currency codec returns a number for every \<open>Decimal\<close>, and \<open>encode\<close> of the
  ISO-date codec returns a \<open>yyyy-MM-dd\<close> string for every valid \<open>Date\<close>, hence for
  every value its decoder returns: a year on four digits at least, a month from 1 to
  12 and a day from 1 to 31 on two digits each, with hyphens between. For an Invalid
  Date, which the codec's guard \<open>u instanceof Date\<close> accepts as well, it throws a
  RangeError.
\<close>

theorem encode_total_on_valid_domain:
  "Uuid_encode a = Inr a
   \<and> (CurrencyFromString_is a \<longrightarrow> (\<exists>n. CurrencyFromString_encode a = Inr (JNum n)))
   \<and> (DateFromISOString_is a \<and> isValid (toDate a) \<longrightarrow>
        (\<exists>s y m dd. DateFromISOString_encode L a = Inr (JStr s)
           \<and> s = addLeadingZeros y 4 @ ''-'' @ addLeadingZeros m 2 @ ''-'' @ addLeadingZeros dd 2
           \<and> 1 \<le> y \<and> 1 \<le> m \<and> m \<le> 12 \<and> 1 \<le> dd \<and> dd \<le> 31
           \<and> 4 \<le> length (addLeadingZeros y 4)
           \<and> length (addLeadingZeros m 2) = 2 \<and> length (addLeadingZeros dd 2) = 2
           \<and> set s \<subseteq> set ''0123456789'' \<union> {CHR ''-''}))
   \<and> (decode (DateFromISOString L) u = Inr a \<longrightarrow>
        DateFromISOString_is a \<and> isValid (toDate a))
   \<and> (DateFromISOString_is a \<and> \<not> isValid (toDate a) \<longrightarrow>
        DateFromISOString_encode L a = Inl RangeError)"
proof (intro conjI impI)
  show "Uuid_encode a = Inr a" by (simp add: Uuid_encode_def)
next
  assume "CurrencyFromString_is a"
  then show "\<exists>n. CurrencyFromString_encode a = Inr (JNum n)" by (cases a) auto
next
  assume "DateFromISOString_is a \<and> isValid (toDate a)"
  then obtain t where a: "a = JDate (Date t)"
    by (cases a; cases "toDate a") auto
  obtain sy sm sd where c: "civil_from_days ((t + zoneOffset L t) div msPerDay) = (sy, sm, sd)"
    by (cases "civil_from_days ((t + zoneOffset L t) div msPerDay)") auto
  define y where "y = nat (if 0 < sy then sy else 1 - sy)"
  define m where "m = nat sm"
  define dd where "dd = nat sd"
  define s where "s = addLeadingZeros y 4 @ ''-'' @ addLeadingZeros m 2 @ ''-'' @ addLeadingZeros dd 2"
  from civil_from_days_correct [OF c] have
    k: "1 \<le> sm" "sm \<le> 12" "1 \<le> sd" "sd \<le> month_lengths sy ! nat (sm - 1)" by simp_all
  from k(1,2) have "nat (sm - 1) < 12" by simp
  from month_lengths_le [OF this, of sy] k have d31: "sd \<le> 31" by simp
  have e: "DateFromISOString_encode L a = Inr (JStr s)"
    unfolding a s_def y_def m_def dd_def by (rule DateFromISOString_encode_civil [OF c])
  have y1: "1 \<le> y" unfolding y_def by (cases "0 < sy") simp_all
  have m1: "1 \<le> m" "m \<le> 12" using k unfolding m_def by simp_all
  have d1: "1 \<le> dd" "dd \<le> 31" using k d31 unfolding dd_def by simp_all
  from m1 have "m < 10 ^ 2" by simp
  then have lm: "length (addLeadingZeros m 2) = 2" by (rule addLeadingZeros_length) simp
  from d1 have "dd < 10 ^ 2" by simp
  then have ld: "length (addLeadingZeros dd 2) = 2" by (rule addLeadingZeros_length) simp
  have ly: "4 \<le> length (addLeadingZeros y 4)" by (rule addLeadingZeros_length_ge)
  from DateFromISOString_encode_Date [of L t] e a
  have cs: "set s \<subseteq> set ''0123456789'' \<union> {CHR ''-''}" by simp
  from e y1 m1 d1 ly lm ld cs s_def
  show "\<exists>s y m dd. DateFromISOString_encode L a = Inr (JStr s)
           \<and> s = addLeadingZeros y 4 @ ''-'' @ addLeadingZeros m 2 @ ''-'' @ addLeadingZeros dd 2
           \<and> 1 \<le> y \<and> 1 \<le> m \<and> m \<le> 12 \<and> 1 \<le> dd \<and> dd \<le> 31
           \<and> 4 \<le> length (addLeadingZeros y 4)
           \<and> length (addLeadingZeros m 2) = 2 \<and> length (addLeadingZeros dd 2) = 2
           \<and> set s \<subseteq> set ''0123456789'' \<union> {CHR ''-''}"
    by blast
next
  assume "decode (DateFromISOString L) u = Inr a"
  from DateFromISOString_decode_valid [OF this]
  show "DateFromISOString_is a" and "isValid (toDate a)" by auto
next
  assume "DateFromISOString_is a \<and> \<not> isValid (toDate a)"
  then have "a = JDate InvalidDate"
    by (cases a; cases "toDate a") auto
  then show "DateFromISOString_encode L a = Inl RangeError"
    by (simp add: DateFromISOString_encode_def format_yyyy_MM_dd_def)
qed

theorem encode_total_on_valid_domain_witness:
  "Uuid_encode (JStringObj ''f3b0'') = Inr (JStringObj ''f3b0'')
   \<and> CurrencyFromString_encode (JDecimal (Decimal (Finite (5 / 2)))) = Inr (JNum (Finite (5 / 2)))
   \<and> DateFromISOString_encode saoPaulo (JDate (Date 1709210096789)) = Inr (JStr ''2024-02-29'')"
  using encode_total_on_valid_domain
          [of "JStringObj ''f3b0''" saoPaulo "JStr ''2024-02-29T12:34:56.789Z''"]
        encode_total_on_valid_domain
          [of "JDecimal (Decimal (Finite (5 / 2)))" saoPaulo "JStr ''2024-02-29T12:34:56.789Z''"]
        encode_total_on_valid_domain
          [of "JDate (Date 1709210096789)" saoPaulo "JStr ''2024-02-29T12:34:56.789Z''"]
        format_example
  by (simp add: DateFromISOString_encode_def)


text \<open>
  C8 as stated fails for the ISO-date codec: an Invalid Date passes the codec's guard,
  and \<open>format\<close> throws on it.
\<close>

theorem encode_invalid_date_counterexample:
  "DateFromISOString_is (JDate InvalidDate)
   \<and> DateFromISOString_encode saoPaulo (JDate InvalidDate) = Inl RangeError"
  by (simp add: DateFromISOString_encode_def format_yyyy_MM_dd_def)

subsection \<open>The exact codec\<close>

text \<open>
  An exact codec over a refinement of an interface drops the properties outside the
  props of the interface, though \<open>getProps\<close> of the route finds no props in a
  refinement.
\<close>

lemma validate_exact_refinement_strips:
  "validate (ExactType ''e'' (RefinementType ''r'' (InterfaceType ''i'' [(''a'', StringType ''string'')])
               (\<lambda>_. True)))
     (JObj [(''a'', JStr ''x''), (''b'', JStr ''y'')])
   = Inr (JObj [(''a'', JStr ''x'')])
   \<and> getProps (RefinementType ''r'' (InterfaceType ''i'' [(''a'', StringType ''string'')]) (\<lambda>_. True))
     = None"
  by (simp add: get_prop_def success_def)

subsection \<open>The round trip without refinements\<close>

text \<open>
  Apart from refinement nodes, the contract of C1 holds: for every node of
  \<open>supported\<close>, on a host whose \<open>parseISO\<close> reads what \<open>toISOString\<close> writes,
  decoding the generated value succeeds; so the \<open>loader\<close> returns.
\<close>

lemma decodable_generated:
  assumes "decodable c" and "generate c r0 = (Inr v, r1)"
  shows "\<exists>a. validate c v = Inr a"
  using assms unfolding decodable_def by (metis Pair_inject sum.inject(2))

lemma decodable_returns:
  assumes "decodable c"
  shows "\<forall>r. \<exists>v r'. generate c r = (Inr v, r')"
  using assms unfolding decodable_def by blast

lemma validate_items_ok:
  "(\<forall>v\<in>set vs. \<exists>a. validate t v = Inr a) \<Longrightarrow> fst (validate_items t vs) = []"
  by (induction vs) (auto split: prod.splits sum.splits)

lemma get_prop_set_prop_other: "k' \<noteq> k \<Longrightarrow> get_prop (set_prop a k v) k' = get_prop a k'"
  by (induction a) (auto simp: get_prop_def)

lemma validate_interface_ok:
  "distinct (map fst props) \<Longrightarrow>
   (\<forall>kt\<in>set props. \<exists>a. validate (snd kt) (get_prop obj (fst kt)) = Inr a) \<Longrightarrow>
   fst (validate_interface props obj) = []"
proof (induction props arbitrary: obj)
  case Nil
  then show ?case by simp
next
  case (Cons kt props)
  obtain k t where kt: "kt = (k, t)" by (cases kt)
  from Cons.prems kt obtain vak where v: "validate t (get_prop obj k) = Inr vak" by auto
  define obj' where
    "obj' = (if vak \<noteq> get_prop obj k \<or> (vak = JUndefined \<and> k \<notin> fst ` set obj)
             then set_prop obj k vak else obj)"
  have d: "distinct (map fst props)" using Cons.prems by simp
  have "\<exists>a. validate (snd kt') (get_prop obj' (fst kt')) = Inr a" if m: "kt' \<in> set props" for kt'
  proof -
    from m Cons.prems(1) kt have "fst kt' \<noteq> k" by force
    then have "get_prop obj' (fst kt') = get_prop obj (fst kt')"
      unfolding obj'_def by (simp add: get_prop_set_prop_other)
    with Cons.prems(2) m show ?thesis by simp
  qed
  then have "fst (validate_interface props obj') = []"
    using Cons.IH [OF d] by blast
  with v kt show ?case unfolding obj'_def by (simp add: Let_def)
qed

lemma validate_partial_ok:
  "distinct (map fst props) \<Longrightarrow>
   (\<forall>kt\<in>set props. \<exists>a. validate (snd kt) (get_prop obj (fst kt)) = Inr a) \<Longrightarrow>
   fst (validate_partial props obj) = []"
proof (induction props arbitrary: obj)
  case Nil
  then show ?case by simp
next
  case (Cons kt props)
  obtain k t where kt: "kt = (k, t)" by (cases kt)
  from Cons.prems kt obtain vak where v: "validate t (get_prop obj k) = Inr vak" by auto
  define obj' where
    "obj' = (if vak \<noteq> get_prop obj k then set_prop obj k vak else obj)"
  have d: "distinct (map fst props)" using Cons.prems by simp
  have "\<exists>a. validate (snd kt') (get_prop obj' (fst kt')) = Inr a" if m: "kt' \<in> set props" for kt'
  proof -
    from m Cons.prems(1) kt have "fst kt' \<noteq> k" by force
    then have "get_prop obj' (fst kt') = get_prop obj (fst kt')"
      unfolding obj'_def by (simp add: get_prop_set_prop_other)
    with Cons.prems(2) m show ?thesis by simp
  qed
  then have "fst (validate_partial props obj') = []"
    using Cons.IH [OF d] by blast
  with v kt show ?case unfolding obj'_def by (simp add: Let_def)
qed

lemma generated_props_lookup:
  assumes "list_all2 (\<lambda>kv kt. P (snd kt) (snd kv)) kvs props"
    and "map fst kvs = map fst props" and "distinct (map fst props)"
    and "kt \<in> set props"
  shows "P (snd kt) (get_prop kvs (fst kt))"
  using assms
proof (induction kvs props rule: list_all2_induct)
  case Nil
  then show ?case by simp
next
  case (Cons kv kvs kt' props)
  show ?case
  proof (cases "kt = kt'")
    case True
    with Cons show ?thesis by (cases kv) (auto simp: get_prop_def)
  next
    case False
    with Cons.prems have m: "kt \<in> set props" by simp
    from m have "fst kt \<in> fst ` set props" by (rule imageI)
    moreover from Cons.prems(2) have "fst kt' \<notin> fst ` set props" by simp
    ultimately have "fst kt \<noteq> fst kt'" by metis
    with Cons.prems(1) have "get_prop (kv # kvs) (fst kt) = get_prop kvs (fst kt)"
      by (cases kv) (auto simp: get_prop_def)
    with Cons m show ?thesis by simp
  qed
qed


lemma faker_chars_total: "\<exists>cs r. faker_chars k rng = (cs, r)"
  by (cases "faker_chars k rng") auto

lemma generate_leaf_decodable:
  assumes "\<not> reserved n"
  shows "decodable (StringType n)" and "decodable (NumberType n)" and "decodable (BooleanType n)"
  using assms
  by (auto simp: decodable_def reserved_def generate.simps faker_datatype_string_def
        faker_datatype_number_def faker_datatype_boolean_def success_def
        split: prod.splits)

lemma Uuid_decodable: "decodable Uuid"
  unfolding decodable_def
proof
  fix rng
  obtain s r where u: "faker_datatype_uuid rng = (JStr s, r)"
    using faker_datatype_uuid_string by blast
  then have "generate Uuid rng = (Inr (JStr s), r)"
    by (simp add: generate.simps Uuid_def)
  moreover have "validate Uuid (JStr s) = Inr (JStr s)"
    by (simp add: Uuid_def Uuid_validate_def t_string_def success_def)
  ultimately show "\<exists>v r a. generate Uuid rng = (Inr v, r) \<and> validate Uuid v = Inr a" by blast
qed

lemma CurrencyFromString_decodable: "decodable CurrencyFromString"
  unfolding decodable_def
proof
  fix rng
  obtain k r where u: "faker_datatype_float rng = (JNum (Finite (of_nat k / 100)), r)"
    using faker_datatype_float_two_decimals by blast
  then have "generate CurrencyFromString rng = (Inr (JNum (Finite (of_nat k / 100))), r)"
    by (simp add: generate.simps CurrencyFromString_def)
  moreover have "validate CurrencyFromString (JNum (Finite (of_nat k / 100)))
                   = Inr (JDecimal (Decimal (Finite (of_nat k / 100))))"
    by (simp add: CurrencyFromString_def CurrencyFromString_validate_def t_number_def
          success_def new_Decimal_def)
  ultimately show "\<exists>v r a. generate CurrencyFromString rng = (Inr v, r)
                      \<and> validate CurrencyFromString v = Inr a" by blast
qed

lemma DateFromISOString_decodable:
  assumes "\<forall>t w. toISOString (Date t) = Inr w \<longrightarrow> isValid (parseISO L w)"
  shows "decodable (DateFromISOString L)"
  unfolding decodable_def
proof
  fix rng
  obtain t0 r where p: "faker_date_past rng = (Date t0, r)"
    using faker_date_past_valid by blast
  obtain w where w: "toISOString (Date t0) = Inr w"
    using toISOString_Date by blast
  have g: "generate (DateFromISOString L) rng = (Inr (JStr w), r)"
    using p w by (simp add: generate.simps DateFromISOString_def)
  from assms w have "isValid (parseISO L w)" by blast
  then have "decode (DateFromISOString L) (JStr w) = Inr (JDate (parseISO L w))"
    by (simp add: DateFromISOString_decode)
  with g show "\<exists>v r a. generate (DateFromISOString L) rng = (Inr v, r)
                  \<and> validate (DateFromISOString L) v = Inr a"
    unfolding decode_def by blast
qed

lemma Array_decodable:
  assumes n: "\<not> reserved n" and t: "decodable t"
  shows "decodable (ArrayType n t)"
  unfolding decodable_def
proof
  fix rng
  from n have nn: "n \<noteq> ''DateFromStringISO''" "n \<noteq> ''Uuid''" "n \<noteq> ''CurrencyFromString''"
    by (auto simp: reserved_def)
  obtain vs r where e:
    "generate_elems t (nearest_double (10 * (fst (draw rng) mod 2 ^ 53)) div 2 ^ 53)
       (snd (draw rng)) = (Inr vs, r)"
    using generate_elems_returns [OF decodable_returns [OF t]] by blast
  with generate_ArrayType_draw [OF nn, of t rng]
  have g: "generate (ArrayType n t) rng = (Inr (JArr vs), r)" by simp
  from generate_elems_Inr [OF e] have "\<forall>v\<in>set vs. \<exists>r0 r1. generate t r0 = (Inr v, r1)" by simp
  with t have "\<forall>v\<in>set vs. \<exists>a. validate t v = Inr a"
    using decodable_generated by blast
  from validate_items_ok [OF this] have "\<exists>a. validate (ArrayType n t) (JArr vs) = Inr a"
    by (auto simp: success_def split: prod.splits)
  with g show "\<exists>v r a. generate (ArrayType n t) rng = (Inr v, r) \<and> validate (ArrayType n t) v = Inr a"
    by blast
qed

lemma struct_generated:
  assumes gp: "getProps c = Some props"
    and n: "\<not> reserved (name c)"
    and d: "distinct (map fst props)"
    and f: "\<forall>kt\<in>set props. decodable (snd kt)"
  shows "\<exists>kvs r. generate c rng = (Inr (JObj kvs), r)
           \<and> (\<forall>kt\<in>set props. \<exists>a. validate (snd kt) (get_prop kvs (fst kt)) = Inr a)"
proof -
  from n have nn: "name c \<noteq> ''DateFromStringISO''" "name c \<noteq> ''Uuid''"
      "name c \<noteq> ''CurrencyFromString''"
    by (auto simp: reserved_def)
  from f have "\<forall>kt\<in>set props. \<forall>r. \<exists>v r'. generate (snd kt) r = (Inr v, r')"
    using decodable_returns by blast
  from generate_props_returns [OF this] obtain kvs r where
    e: "generate_props props rng = (Inr kvs, r)" by blast
  with generate_struct [OF gp nn, of rng] have g: "generate c rng = (Inr (JObj kvs), r)" by simp
  from generate_props_Inr [OF e] have
    k: "map fst kvs = map fst props" and
    l: "list_all2 (\<lambda>kv kt. \<exists>r0 r1. generate (snd kt) r0 = (Inr (snd kv), r1)) kvs props"
    by simp_all
  have "\<exists>a. validate (snd kt) (get_prop kvs (fst kt)) = Inr a" if m: "kt \<in> set props" for kt
  proof -
    from generated_props_lookup
           [where P = "\<lambda>t v. \<exists>r0 r1. generate t r0 = (Inr v, r1)", OF l k d m]
    obtain r0 r1 where "generate (snd kt) r0 = (Inr (get_prop kvs (fst kt)), r1)" by blast
    with f m show ?thesis using decodable_generated by blast
  qed
  with g show ?thesis by blast
qed


lemma supported_struct_name:
  assumes "supported L t" and "getProps t \<noteq> None"
  shows "\<not> reserved (name t)"
  using assms
  by (cases rule: supported.cases)
    (auto simp: Uuid_def CurrencyFromString_def DateFromISOString_def)

lemma supported_decodable:
  assumes lib: "\<forall>t w. toISOString (Date t) = Inr w \<longrightarrow> isValid (parseISO L w)"
    and s: "supported L c"
  shows "decodable c"
  using s
proof (induction rule: supported.induct)
  case sup_Uuid
  show ?case by (rule Uuid_decodable)
next
  case sup_Currency
  show ?case by (rule CurrencyFromString_decodable)
next
  case sup_Date
  show ?case using lib by (rule DateFromISOString_decodable)
next
  case (sup_String n)
  then show ?case by (rule generate_leaf_decodable)
next
  case (sup_Number n)
  then show ?case by (rule generate_leaf_decodable)
next
  case (sup_Boolean n)
  then show ?case by (rule generate_leaf_decodable)
next
  case (sup_Array n t)
  then show ?case by (simp add: Array_decodable)
next
  case (sup_Interface n props)
  show ?case
    unfolding decodable_def
  proof
    fix rng
    from sup_Interface have f: "\<forall>kt\<in>set props. decodable (snd kt)" by blast
    from struct_generated [of "InterfaceType n props" props, OF _ _ sup_Interface(2) f, of rng]
      sup_Interface(1)
    obtain kvs r where
      g: "generate (InterfaceType n props) rng = (Inr (JObj kvs), r)" and
      v: "\<forall>kt\<in>set props. \<exists>a. validate (snd kt) (get_prop kvs (fst kt)) = Inr a"
      by auto
    from validate_interface_ok [OF sup_Interface(2) v]
    have "\<exists>a. validate (InterfaceType n props) (JObj kvs) = Inr a"
      by (auto simp: success_def split: prod.splits)
    with g show "\<exists>v r a. generate (InterfaceType n props) rng = (Inr v, r)
                    \<and> validate (InterfaceType n props) v = Inr a" by blast
  qed
next
  case (sup_Partial n props)
  show ?case
    unfolding decodable_def
  proof
    fix rng
    from sup_Partial have f: "\<forall>kt\<in>set props. decodable (snd kt)" by blast
    from struct_generated [of "PartialType n props" props, OF _ _ sup_Partial(2) f, of rng]
      sup_Partial(1)
    obtain kvs r where
      g: "generate (PartialType n props) rng = (Inr (JObj kvs), r)" and
      v: "\<forall>kt\<in>set props. \<exists>a. validate (snd kt) (get_prop kvs (fst kt)) = Inr a"
      by auto
    from validate_partial_ok [OF sup_Partial(2) v]
    have "\<exists>a. validate (PartialType n props) (JObj kvs) = Inr a"
      by (auto simp: success_def split: prod.splits)
    with g show "\<exists>v r a. generate (PartialType n props) rng = (Inr v, r)
                    \<and> validate (PartialType n props) v = Inr a" by blast
  qed
next
  case (sup_Exact n t)
  show ?case
    unfolding decodable_def
  proof
    fix rng
    from sup_Exact obtain props where gp: "getProps t = Some props" by auto
    from supported_struct_name [OF sup_Exact(2,3)] have
      nt: "name t \<noteq> ''DateFromStringISO''" "name t \<noteq> ''Uuid''" "name t \<noteq> ''CurrencyFromString''"
      by (auto simp: reserved_def)
    from sup_Exact(1) have
      nn: "name (ExactType n t) \<noteq> ''DateFromStringISO''" "name (ExactType n t) \<noteq> ''Uuid''"
        "name (ExactType n t) \<noteq> ''CurrencyFromString''"
      by (auto simp: reserved_def)
    from gp have ge: "getProps (ExactType n t) = Some props" by simp
    have same: "generate (ExactType n t) rng = generate t rng"
      by (simp only: generate_struct [OF ge nn] generate_struct [OF gp nt])
    from sup_Exact(4) obtain v r a where
      g: "generate t rng = (Inr v, r)" and d: "validate t v = Inr a"
      unfolding decodable_def by blast
    from g generate_struct [OF gp nt, of rng] obtain kvs where "v = JObj kvs"
      by (auto split: prod.splits sum.splits)
    with d have "\<exists>a. validate (ExactType n t) v = Inr a" by simp
    with g same show "\<exists>v r a. generate (ExactType n t) rng = (Inr v, r)
                        \<and> validate (ExactType n t) v = Inr a" by auto
  qed
qed

lemma supported_round_trip:
  assumes "\<forall>t w. toISOString (Date t) = Inr w \<longrightarrow> isValid (parseISO L w)"
    and "supported L c"
  shows "\<exists>a. generate_then_decode c rng = Inr a"
proof -
  from supported_decodable [OF assms] obtain v r a where
    "generate c rng = (Inr v, r)" and "validate c v = Inr a"
    unfolding decodable_def by blast
  then show ?thesis by (simp add: generate_then_decode_def decode_def)
qed

lemma QuotationCodec_supported: "supported L (QuotationCodec L)"
proof -
  have c: "supported L CurrencyFromString" by (rule sup_Currency)
  have inner: "supported L (t_type
      [(''amountNetOfIof'', CurrencyFromString),
       (''totalAmount'', CurrencyFromString),
       (''iofAmount'', CurrencyFromString)])"
    unfolding t_type_def by (rule sup_Interface) (simp_all add: reserved_def c)
  have arr: "supported L (t_array (t_type
      [(''amountNetOfIof'', CurrencyFromString),
       (''totalAmount'', CurrencyFromString),
       (''iofAmount'', CurrencyFromString)]))"
    unfolding t_array_def using inner by (intro sup_Array) (simp_all add: reserved_def)
  show ?thesis
    unfolding QuotationCodec_def
    by (subst t_type_def, rule sup_Interface)
      (simp_all add: reserved_def sup_Uuid sup_Date c arr)
qed

lemma loader_returns:
  assumes "\<forall>t w. toISOString (Date t) = Inr w \<longrightarrow> isValid (parseISO L w)"
  shows "\<exists>a. loader L rng = Inr a"
  unfolding loader_def using assms QuotationCodec_supported by (rule supported_round_trip)

end
